theory Spec2Isabelle
  imports Main "HOL-Library.AList"
begin

section \<open>JavaScript objects used as dictionaries\<close>

text \<open>
  \<^verbatim>\<open>host.ts\<close> keeps all of its tables in plain JavaScript objects indexed by file name
  (\<^verbatim>\<open>{[fileName: string]: T}\<close>).  Such an object is an association list here: the keys in
  insertion order (the order of \<^verbatim>\<open>Object.keys\<close>), assignment \<^verbatim>\<open>obj[k] = v\<close> is
  \<^const>\<open>AList.update\<close> (an existing key keeps its position, a new key goes last),
  \<^verbatim>\<open>obj.hasOwnProperty(k)\<close> asks for a key of the list.
\<close>

type_synonym 'v jsobj = "(string \<times> 'v) list"

definition hasOwnProperty :: "'v jsobj \<Rightarrow> string \<Rightarrow> bool" where
  "hasOwnProperty obj k = (map_of obj k \<noteq> None)"

definition objectKeys :: "'v jsobj \<Rightarrow> string list" where
  "objectKeys obj = map fst obj"

text \<open>
  Every such object is created by \<^verbatim>\<open>{}\<close> and so inherits the members of
  \<^verbatim>\<open>Object.prototype\<close>: a read \<^verbatim>\<open>obj[k]\<close> of a key the object does not own gives
  \<^verbatim>\<open>undefined\<close> unless \<open>k\<close> is one of the twelve names below (the own property names of
  \<^verbatim>\<open>Object.prototype\<close> in V8), where it gives the inherited member, a function or, for
  \<^verbatim>\<open>__proto__\<close>, the prototype itself.
\<close>

definition objectPrototypeNames :: "string list" where
  "objectPrototypeNames =
     [''constructor'', ''__defineGetter__'', ''__defineSetter__'', ''hasOwnProperty'',
      ''__lookupGetter__'', ''__lookupSetter__'', ''isPrototypeOf'', ''propertyIsEnumerable'',
      ''toString'', ''valueOf'', ''__proto__'', ''toLocaleString'']"

definition inheritedName :: "string \<Rightarrow> bool" where
  "inheritedName k = (k \<in> set objectPrototypeNames)"

text \<open>
  \<^verbatim>\<open>type FileSet = {[fileName: string]: boolean}\<close>.  \<^verbatim>\<open>!!set[k]\<close> is \<open>truthy\<close>: the
  stored flag for a key the set owns, and \<^verbatim>\<open>true\<close> for an inherited member, which is an
  object.
\<close>

type_synonym FileSet = "bool jsobj"

definition truthy :: "FileSet \<Rightarrow> string \<Rightarrow> bool" where
  "truthy fs k = (case map_of fs k of Some b \<Rightarrow> b | None \<Rightarrow> inheritedName k)"

text \<open>
  Two of the twelve names do not behave as keys when they are written: the assignment
  \<^verbatim>\<open>obj["__proto__"] = v\<close> runs the inherited setter and creates no key, and an own key
  \<^verbatim>\<open>hasOwnProperty\<close> shadows the method the code calls, so that the next call of it
  raises a \<^verbatim>\<open>TypeError\<close>.  The association list is what the code builds as long as the
  names it writes are plain keys.
\<close>

definition plainKey :: "string \<Rightarrow> bool" where
  "plainKey k = (k \<noteq> ''__proto__'' \<and> k \<noteq> ''hasOwnProperty'')"

section \<open>Unit store\<close>

text \<open>
  \<^verbatim>\<open>interface File { text: string; version: number }\<close>.  The version is a JavaScript
  number that only ever holds 0 or a predecessor plus 1; it is a natural number here
  (exact as long as it stays below \<open>2^53\<close>).
\<close>

record File =
  file_text :: string
  file_version :: nat

text \<open>
  \<^verbatim>\<open>State.updateFile(fileName, text, checked = false)\<close>: returns \<^verbatim>\<open>changed\<close> and stores
  the new unit.  Note that the branch that reports no change leaves the local
  \<^verbatim>\<open>version\<close> at its initial value 0.
\<close>

definition updateFile :: "string \<Rightarrow> string \<Rightarrow> bool \<Rightarrow> File jsobj \<Rightarrow> bool \<times> File jsobj" where
  "updateFile fileName txt checked files =
     (let prevFile = map_of files fileName;
          (version, changed) =
            (case prevFile of
               None \<Rightarrow> (0, True)
             | Some pf \<Rightarrow>
                 if \<not> checked \<or> (checked \<and> txt \<noteq> file_text pf)
                 then (file_version pf + 1, True)
                 else (0, False))
      in (changed, AList.update fileName \<lparr>file_text = txt, file_version = version\<rparr> files))"

definition addFile :: "string \<Rightarrow> string \<Rightarrow> File jsobj \<Rightarrow> File jsobj" where
  "addFile fileName txt files =
     AList.update fileName \<lparr>file_text = txt, file_version = 0\<rparr> files"




section \<open>Dependency graph and declaration registry\<close>

text \<open>
  \<^verbatim>\<open>class DependencyManager\<close>: \<^verbatim>\<open>dependencies: {[fileName: string]: string[]}\<close> and
  \<^verbatim>\<open>knownTypeDeclarations: FileSet\<close>.  Every method that writes returns the updated
  manager.
\<close>

record DependencyManager =
  dependencies :: "string list jsobj"
  knownTypeDeclarations :: FileSet

definition newDependencyManager :: DependencyManager where
  "newDependencyManager = \<lparr>dependencies = [], knownTypeDeclarations = []\<rparr>"

definition clearDependencies :: "string \<Rightarrow> DependencyManager \<Rightarrow> DependencyManager" where
  "clearDependencies fileName dm =
     dm\<lparr>dependencies := AList.update fileName [] (dependencies dm)\<rparr>"

text \<open>The guard both \<^verbatim>\<open>addDependency\<close>, \<^verbatim>\<open>getDependencies\<close> and \<^verbatim>\<open>applyChain\<close> start with.\<close>

definition ensureEntry :: "string \<Rightarrow> DependencyManager \<Rightarrow> DependencyManager" where
  "ensureEntry fileName dm =
     (if \<not> hasOwnProperty (dependencies dm) fileName then clearDependencies fileName dm else dm)"

definition addDependency :: "string \<Rightarrow> string \<Rightarrow> DependencyManager \<Rightarrow> DependencyManager" where
  "addDependency fileName depFileName dm =
     (let dm1 = ensureEntry fileName dm
      in dm1\<lparr>dependencies :=
               AList.map_entry fileName (\<lambda>l. l @ [depFileName]) (dependencies dm1)\<rparr>)"

text \<open>The stored list of a unit, \<^verbatim>\<open>this.dependencies[fileName]\<close>, once the entry exists.\<close>

definition storedDependencies :: "DependencyManager \<Rightarrow> string \<Rightarrow> string list" where
  "storedDependencies dm fileName =
     (case map_of (dependencies dm) fileName of None \<Rightarrow> [] | Some l \<Rightarrow> l)"

definition getDependencies :: "string \<Rightarrow> DependencyManager \<Rightarrow> string list \<times> DependencyManager" where
  "getDependencies fileName dm =
     (let dm1 = ensureEntry fileName dm
      in (storedDependencies dm1 fileName, dm1))"

definition addTypeDeclaration :: "string \<Rightarrow> DependencyManager \<Rightarrow> DependencyManager" where
  "addTypeDeclaration fileName dm =
     dm\<lparr>knownTypeDeclarations := AList.update fileName True (knownTypeDeclarations dm)\<rparr>"

definition hasTypeDeclaration :: "DependencyManager \<Rightarrow> string \<Rightarrow> bool" where
  "hasTypeDeclaration dm fileName = hasOwnProperty (knownTypeDeclarations dm) fileName"

subsection \<open>The same three methods over a heap of arrays\<close>

text \<open>
  The lists stored in \<^verbatim>\<open>dependencies\<close> are JavaScript arrays, that is references.  To
  speak about what a caller can do with the array \<^verbatim>\<open>getDependencies\<close> hands out, the
  three methods that touch \<^verbatim>\<open>dependencies\<close> are given once more over an explicit heap:
  an address is an index into \<open>arrays\<close>, \<^verbatim>\<open>[]\<close> and \<^verbatim>\<open>slice()\<close> allocate at the end,
  \<^verbatim>\<open>push\<close> writes in place.
\<close>

record DependencyHeap =
  arrays :: "string list list"
  dependencyRefs :: "nat jsobj"

definition allocArray :: "string list \<Rightarrow> DependencyHeap \<Rightarrow> nat \<times> DependencyHeap" where
  "allocArray xs h = (length (arrays h), h\<lparr>arrays := arrays h @ [xs]\<rparr>)"

definition clearDependenciesH :: "string \<Rightarrow> DependencyHeap \<Rightarrow> DependencyHeap" where
  "clearDependenciesH fileName h =
     (let (r, h1) = allocArray [] h
      in h1\<lparr>dependencyRefs := AList.update fileName r (dependencyRefs h1)\<rparr>)"

definition ensureEntryH :: "string \<Rightarrow> DependencyHeap \<Rightarrow> DependencyHeap" where
  "ensureEntryH fileName h =
     (if \<not> hasOwnProperty (dependencyRefs h) fileName then clearDependenciesH fileName h else h)"

definition addDependencyH :: "string \<Rightarrow> string \<Rightarrow> DependencyHeap \<Rightarrow> DependencyHeap" where
  "addDependencyH fileName depFileName h =
     (let h1 = ensureEntryH fileName h
      in case map_of (dependencyRefs h1) fileName of
           None \<Rightarrow> h1
         | Some r \<Rightarrow> h1\<lparr>arrays := (arrays h1)[r := arrays h1 ! r @ [depFileName]]\<rparr>)"





section \<open>Chain applier\<close>

text \<open>
  \<^verbatim>\<open>interface Dependency { add(fileName: string): void; clear(): void }\<close> is the caller's
  accumulator.  The code never reads it, so it is the list of the calls made on it, in
  order.
\<close>

datatype DepCall = Clear | Add string

text \<open>
  \<^verbatim>\<open>applyChain(fileName, deps, appliedChains = {}, appliedDeps = {})\<close> mutates the manager,
  the accumulator and both visited sets; they travel together.
\<close>

record ChainState =
  chainManager :: DependencyManager
  chainCalls :: "DepCall list"
  appliedChains :: FileSet
  appliedDeps :: FileSet

text \<open>
  The part of \<^verbatim>\<open>applyChain\<close> before its \<^verbatim>\<open>forEach\<close>: the entry guard, the mark in
  \<^verbatim>\<open>appliedChains\<close>, the declarations (once, under the key \<^verbatim>\<open>".d.ts"\<close>), and the copy of
  the unit's list that the loop runs over.
\<close>

definition chainEnter :: "string \<Rightarrow> ChainState \<Rightarrow> string list \<times> ChainState" where
  "chainEnter fileName s =
     (let s1 = s\<lparr>chainManager := ensureEntry fileName (chainManager s)\<rparr>;
          s2 = s1\<lparr>appliedChains := AList.update fileName True (appliedChains s1)\<rparr>;
          s3 = (if \<not> hasOwnProperty (appliedChains s2) ''.d.ts''
                then s2\<lparr>appliedChains := AList.update ''.d.ts'' True (appliedChains s2),
                        chainCalls := chainCalls s2 @ map Add (objectKeys (knownTypeDeclarations (chainManager s2)))\<rparr>
                else s2);
          (fileDeps, dm) = getDependencies fileName (chainManager s3)
      in (fileDeps, s3\<lparr>chainManager := dm\<rparr>))"

text \<open>The first \<^verbatim>\<open>if\<close> of the loop body.\<close>

definition chainAdd :: "string \<Rightarrow> ChainState \<Rightarrow> ChainState" where
  "chainAdd depFileName s =
     (if \<not> hasOwnProperty (appliedDeps s) depFileName
      then s\<lparr>chainCalls := chainCalls s @ [Add depFileName],
              appliedDeps := AList.update depFileName True (appliedDeps s)\<rparr>
      else s)"

text \<open>
  \<^verbatim>\<open>applyChain\<close> and the body of its \<^verbatim>\<open>forEach\<close>, which calls \<^verbatim>\<open>applyChain\<close> again on
  the state the earlier iterations left.
\<close>

function applyChain :: "string \<Rightarrow> ChainState \<Rightarrow> ChainState"
  and applyChainEach :: "string list \<Rightarrow> ChainState \<Rightarrow> ChainState" where
  "applyChain fileName s =
     (case chainEnter fileName s of (fileDeps, s1) \<Rightarrow> applyChainEach fileDeps s1)"
| "applyChainEach [] s = s"
| "applyChainEach (depFileName # rest) s =
     (let s1 = chainAdd depFileName s
      in if \<not> truthy (appliedChains s1) depFileName
         then applyChainEach rest (applyChain depFileName s1)
         else applyChainEach rest s1)"
  by pat_completeness auto

text \<open>
  Termination: every recursive call marks one more of the finitely many names that occur in
  the lists of the graph.
\<close>

definition depNames :: "DependencyManager \<Rightarrow> string set" where
  "depNames dm = (\<Union>l \<in> snd ` set (dependencies dm). set l)"

definition chainsDone :: "ChainState \<Rightarrow> string set" where
  "chainsDone s = {k. truthy (appliedChains s) k}"

text \<open>The unit names of a graph: the keys of \<^verbatim>\<open>dependencies\<close> and the members of its lists.\<close>

definition graphNames :: "DependencyManager \<Rightarrow> string set" where
  "graphNames dm = set (objectKeys (dependencies dm)) \<union> depNames dm"

lemma finite_depNames: "finite (depNames dm)"
  by (simp add: depNames_def)

lemma update_absent: "map_of al k = None \<Longrightarrow> AList.update k v al = al @ [(k, v)]"
  by (induction al) (auto split: if_splits)

lemma depNames_ensureEntry: "depNames (ensureEntry f dm) = depNames dm"
  by (auto simp: ensureEntry_def clearDependencies_def hasOwnProperty_def depNames_def update_absent)

lemma storedDependencies_names: "set (storedDependencies dm f) \<subseteq> depNames dm"
proof -
  have "set l \<subseteq> depNames dm" if "map_of (dependencies dm) f = Some l" for l
    using map_of_SomeD[OF that] by (force simp: depNames_def)
  then show ?thesis by (cases "map_of (dependencies dm) f") (auto simp: storedDependencies_def)
qed

lemma truthy_update: "truthy (AList.update k True fs) k' = (k' = k \<or> truthy fs k')"
  by (auto simp: truthy_def update_conv' split: option.splits)

lemma chainEnter_facts:
  assumes "chainEnter f s = (ds, s1)"
  shows "depNames (chainManager s1) = depNames (chainManager s)"
    and "set ds \<subseteq> depNames (chainManager s)"
    and "insert f (chainsDone s) \<subseteq> chainsDone s1"
  using assms storedDependencies_names[of "ensureEntry f (ensureEntry f (chainManager s))" f]
  by (auto simp: chainEnter_def Let_def getDependencies_def depNames_ensureEntry chainsDone_def
      truthy_update split: if_splits)

lemma chainAdd_facts:
  "chainManager (chainAdd d s) = chainManager s" "appliedChains (chainAdd d s) = appliedChains s"
  by (auto simp: chainAdd_def)

lemma applyChain_frame_dom:
  "applyChain_applyChainEach_dom (Inl (f, s)) \<Longrightarrow>
     depNames (chainManager (applyChain f s)) = depNames (chainManager s) \<and>
     chainsDone s \<subseteq> chainsDone (applyChain f s)"
  "applyChain_applyChainEach_dom (Inr (ds, s)) \<Longrightarrow>
     depNames (chainManager (applyChainEach ds s)) = depNames (chainManager s) \<and>
     chainsDone s \<subseteq> chainsDone (applyChainEach ds s)"
proof (induction f s and ds s rule: applyChain_applyChainEach.pinduct)
  case (1 fileName s)
  obtain ds s1 where e: "chainEnter fileName s = (ds, s1)" by (cases "chainEnter fileName s")
  from 1(2)[OF e[symmetric]] chainEnter_facts[OF e] 1(1) e show ?case
    by (auto simp: applyChain.psimps)
next
  case (2 s)
  then show ?case by (simp add: applyChainEach.psimps)
next
  case (3 d rest s)
  show ?case
  proof (cases "truthy (appliedChains (chainAdd d s)) d")
    case True
    with 3(4)[OF refl] 3(1) show ?thesis
      by (auto simp: applyChainEach.psimps Let_def chainAdd_facts chainsDone_def)
  next
    case False
    with 3(2)[OF refl] 3(3)[OF refl] 3(1) show ?thesis
      by (auto simp: applyChainEach.psimps Let_def chainAdd_facts chainsDone_def)
  qed
qed

definition chainMeasure :: "string \<times> ChainState + string list \<times> ChainState \<Rightarrow> nat \<times> nat" where
  "chainMeasure x =
     (case x of
        Inl (f, s) \<Rightarrow> (Suc (card (depNames (chainManager s) - insert f (chainsDone s))), 0)
      | Inr (ds, s) \<Rightarrow> (card ((depNames (chainManager s) \<union> set ds) - chainsDone s), Suc (length ds)))"

lemma lex_le_less: "a \<le> c \<Longrightarrow> b < d \<Longrightarrow> ((a, b), (c, d)) \<in> less_than <*lex*> less_than" for a b c d :: nat
  by auto

lemma applyChain_terminates: "All applyChain_applyChainEach_dom"
proof (relation "inv_image (less_than <*lex*> less_than) chainMeasure")
  show "wf (inv_image (less_than <*lex*> less_than) chainMeasure)" by (simp add: wf_lex_prod)
next
  fix fileName s x y
  assume e: "(x, y) = chainEnter fileName s"
  note f = chainEnter_facts[OF e[symmetric]]
  have "(depNames (chainManager y) \<union> set x) - chainsDone y
          \<subseteq> depNames (chainManager s) - insert fileName (chainsDone s)"
    using f by auto
  then have "card ((depNames (chainManager y) \<union> set x) - chainsDone y)
          \<le> card (depNames (chainManager s) - insert fileName (chainsDone s))"
    by (intro card_mono) (auto simp: finite_depNames)
  then show "(Inr (x, y), Inl (fileName, s)) \<in> inv_image (less_than <*lex*> less_than) chainMeasure"
    by (simp add: chainMeasure_def)
next
  fix depFileName rest s x
  assume x: "x = chainAdd depFileName s" and n: "\<not> truthy (appliedChains x) depFileName"
  let ?N = "depNames (chainManager s)" and ?T = "chainsDone s"
  have d: "depFileName \<notin> ?T" using x n by (simp add: chainsDone_def chainAdd_facts)
  have "Suc (card (?N - insert depFileName ?T)) = card (insert depFileName (?N - insert depFileName ?T))"
    by (simp add: finite_depNames)
  also have "\<dots> \<le> card ((?N \<union> set (depFileName # rest)) - ?T)"
    using d by (intro card_mono) (auto simp: finite_depNames)
  finally show "(Inl (depFileName, x), Inr (depFileName # rest, s)) \<in> inv_image (less_than <*lex*> less_than) chainMeasure"
    using x by (auto simp: chainMeasure_def chainAdd_facts chainsDone_def intro!: lex_le_less)
next
  fix depFileName rest s x
  assume x: "x = chainAdd depFileName s" and n: "\<not> truthy (appliedChains x) depFileName"
    and dom: "applyChain_applyChainEach_dom (Inl (depFileName, x))"
  let ?s' = "applyChain depFileName x"
  have fr: "depNames (chainManager ?s') = depNames (chainManager s)" "chainsDone s \<subseteq> chainsDone ?s'"
    using applyChain_frame_dom(1)[OF dom] x by (auto simp: chainAdd_facts chainsDone_def)
  have "card ((depNames (chainManager ?s') \<union> set rest) - chainsDone ?s')
          \<le> card ((depNames (chainManager s) \<union> set (depFileName # rest)) - chainsDone s)"
    using fr by (intro card_mono) (auto simp: finite_depNames)
  then show "(Inr (rest, ?s'), Inr (depFileName # rest, s)) \<in> inv_image (less_than <*lex*> less_than) chainMeasure"
    by (auto simp: chainMeasure_def intro!: lex_le_less)
next
  fix depFileName rest s x
  assume x: "x = chainAdd depFileName s"
  have "card ((depNames (chainManager x) \<union> set rest) - chainsDone x)
          \<le> card ((depNames (chainManager s) \<union> set (depFileName # rest)) - chainsDone s)"
    using x by (intro card_mono) (auto simp: finite_depNames chainAdd_facts chainsDone_def)
  then show "(Inr (rest, x), Inr (depFileName # rest, s)) \<in> inv_image (less_than <*lex*> less_than) chainMeasure"
    by (auto simp: chainMeasure_def intro!: lex_le_less)
qed

termination applyChain
  by (rule applyChain_terminates)

declare applyChain.simps [simp del]

text \<open>The call \<^verbatim>\<open>applyChain(fileName, deps)\<close>, with both visited sets at their default \<^verbatim>\<open>{}\<close>.\<close>

definition chainStart :: "DependencyManager \<Rightarrow> DepCall list \<Rightarrow> ChainState" where
  "chainStart dm calls =
     \<lparr>chainManager = dm, chainCalls = calls, appliedChains = [], appliedDeps = []\<rparr>"

section \<open>Recompile-reason finder\<close>

text \<open>
  \<^verbatim>\<open>recompileReasonInternal(fileName, changedFilesSet, visitedFiles)\<close> and the body of its
  \<^verbatim>\<open>for\<close> loop over the copy \<^verbatim>\<open>getDependencies\<close> returned.  \<^verbatim>\<open>objectAssign({}, visitedFiles)\<close>
  copies the set, so the callee's marks are not seen by the caller; the manager is the one
  thing a call changes (through the entry guard of \<^verbatim>\<open>getDependencies\<close>).
\<close>

function recompileReasonInternal ::
    "string \<Rightarrow> FileSet \<Rightarrow> FileSet \<Rightarrow> DependencyManager \<Rightarrow> string list \<times> DependencyManager"
  and recompileReasonEach ::
    "string list \<Rightarrow> FileSet \<Rightarrow> FileSet \<Rightarrow> DependencyManager \<Rightarrow> string list \<times> DependencyManager" where
  "recompileReasonInternal fileName changedFilesSet visitedFiles dm =
     (case getDependencies fileName dm of
        (fileDeps, dm1) \<Rightarrow>
          recompileReasonEach fileDeps changedFilesSet (AList.update fileName True visitedFiles) dm1)"
| "recompileReasonEach [] changedFilesSet currentVisitedFiles dm = ([], dm)"
| "recompileReasonEach (depFileName # rest) changedFilesSet currentVisitedFiles dm =
     (if hasOwnProperty changedFilesSet depFileName then ([depFileName], dm)
      else if hasOwnProperty currentVisitedFiles depFileName
      then recompileReasonEach rest changedFilesSet currentVisitedFiles dm
      else (case recompileReasonInternal depFileName changedFilesSet currentVisitedFiles dm of
              (internal, dm1) \<Rightarrow>
                if internal \<noteq> [] then (depFileName # internal, dm1)
                else recompileReasonEach rest changedFilesSet currentVisitedFiles dm1))"
  by pat_completeness auto

definition visitedNames :: "FileSet \<Rightarrow> string set" where
  "visitedNames fs = {k. hasOwnProperty fs k}"

lemma getDependencies_facts:
  assumes "getDependencies f dm = (ds, dm1)"
  shows "depNames dm1 = depNames dm" and "set ds \<subseteq> depNames dm"
  using assms storedDependencies_names[of "ensureEntry f dm" f]
  by (auto simp: getDependencies_def Let_def depNames_ensureEntry)

lemma recompileReason_frame_dom:
  "recompileReasonInternal_recompileReasonEach_dom (Inl (f, c, v, dm)) \<Longrightarrow>
     depNames (snd (recompileReasonInternal f c v dm)) = depNames dm"
  "recompileReasonInternal_recompileReasonEach_dom (Inr (ds, c, v, dm)) \<Longrightarrow>
     depNames (snd (recompileReasonEach ds c v dm)) = depNames dm"
proof (induction f c v dm and ds c v dm rule: recompileReasonInternal_recompileReasonEach.pinduct)
  case (1 f c v dm)
  obtain ds dm1 where g: "getDependencies f dm = (ds, dm1)" by (cases "getDependencies f dm")
  from 1(2)[OF g[symmetric]] getDependencies_facts[OF g] 1(1) g show ?case
    by (simp add: recompileReasonInternal.psimps)
next
  case (2 c v dm)
  then show ?case by (simp add: recompileReasonEach.psimps)
next
  case (3 d rest c v dm)
  show ?case
  proof (cases "hasOwnProperty c d")
    case True
    with 3(1) show ?thesis by (simp add: recompileReasonEach.psimps)
  next
    case nc: False
    show ?thesis
    proof (cases "hasOwnProperty v d")
      case True
      with nc 3(1) 3(2) show ?thesis by (simp add: recompileReasonEach.psimps)
    next
      case nv: False
      obtain r dm1 where i: "recompileReasonInternal d c v dm = (r, dm1)"
        by (cases "recompileReasonInternal d c v dm")
      from 3(3)[OF nc nv] i have n: "depNames dm1 = depNames dm" by simp
      show ?thesis
      proof (cases "r = []")
        case True
        with 3(4)[OF nc nv i[symmetric]] nc nv i n 3(1) show ?thesis
          by (simp add: recompileReasonEach.psimps)
      next
        case False
        with nc nv i n 3(1) show ?thesis by (simp add: recompileReasonEach.psimps)
      qed
    qed
  qed
qed

definition reasonMeasure ::
    "string \<times> FileSet \<times> FileSet \<times> DependencyManager + string list \<times> FileSet \<times> FileSet \<times> DependencyManager
       \<Rightarrow> nat \<times> nat" where
  "reasonMeasure x =
     (case x of
        Inl (f, c, v, dm) \<Rightarrow> (Suc (card (depNames dm - insert f (visitedNames v))), 0)
      | Inr (ds, c, v, dm) \<Rightarrow> (card ((depNames dm \<union> set ds) - visitedNames v), Suc (length ds)))"

lemma visitedNames_update: "visitedNames (AList.update k True v) = insert k (visitedNames v)"
  by (auto simp: visitedNames_def hasOwnProperty_def update_conv')

lemma recompileReason_terminates: "All recompileReasonInternal_recompileReasonEach_dom"
proof (relation "inv_image (less_than <*lex*> less_than) reasonMeasure")
  show "wf (inv_image (less_than <*lex*> less_than) reasonMeasure)" by (simp add: wf_lex_prod)
next
  fix fileName c v dm x y
  assume e: "(x, y) = getDependencies fileName dm"
  note f = getDependencies_facts[OF e[symmetric]]
  have "card ((depNames y \<union> set x) - visitedNames (AList.update fileName True v))
          \<le> card (depNames dm - insert fileName (visitedNames v))"
    using f by (intro card_mono) (auto simp: finite_depNames visitedNames_update)
  then show "(Inr (x, c, AList.update fileName True v, y), Inl (fileName, c, v, dm))
               \<in> inv_image (less_than <*lex*> less_than) reasonMeasure"
    by (simp add: reasonMeasure_def)
next
  fix d rest dm and c v :: FileSet
  assume "\<not> hasOwnProperty c d" "hasOwnProperty v d"
  have "card ((depNames dm \<union> set rest) - visitedNames v)
          \<le> card ((depNames dm \<union> set (d # rest)) - visitedNames v)"
    by (intro card_mono) (auto simp: finite_depNames)
  then show "(Inr (rest, c, v, dm), Inr (d # rest, c, v, dm))
               \<in> inv_image (less_than <*lex*> less_than) reasonMeasure"
    by (auto simp: reasonMeasure_def intro!: lex_le_less)
next
  fix d rest dm and c v :: FileSet
  assume n: "\<not> hasOwnProperty v d"
  have "Suc (card (depNames dm - insert d (visitedNames v)))
          = card (insert d (depNames dm - insert d (visitedNames v)))"
    by (simp add: finite_depNames)
  also have "\<dots> \<le> card ((depNames dm \<union> set (d # rest)) - visitedNames v)"
    using n by (intro card_mono) (auto simp: finite_depNames visitedNames_def)
  finally show "(Inl (d, c, v, dm), Inr (d # rest, c, v, dm))
               \<in> inv_image (less_than <*lex*> less_than) reasonMeasure"
    by (auto simp: reasonMeasure_def intro!: lex_le_less)
next
  fix d rest c v dm x y
  assume r: "(x, y) = recompileReasonInternal d c v dm"
    and dom: "recompileReasonInternal_recompileReasonEach_dom (Inl (d, c, v, dm))"
  have "depNames y = depNames dm"
    using recompileReason_frame_dom(1)[OF dom] r[symmetric] by simp
  then have "card ((depNames y \<union> set rest) - visitedNames v)
          \<le> card ((depNames dm \<union> set (d # rest)) - visitedNames v)"
    by (intro card_mono) (auto simp: finite_depNames)
  then show "(Inr (rest, c, v, y), Inr (d # rest, c, v, dm))
               \<in> inv_image (less_than <*lex*> less_than) reasonMeasure"
    by (auto simp: reasonMeasure_def intro!: lex_le_less)
qed

termination recompileReasonInternal
  by (rule recompileReason_terminates)


declare recompileReasonInternal.simps [simp del]


lemma storedDependencies_ensureEntry:
  "storedDependencies (ensureEntry f dm) g = storedDependencies dm g"
  by (auto simp: storedDependencies_def ensureEntry_def clearDependencies_def hasOwnProperty_def
      update_conv')

lemma getDependencies_eq: "getDependencies f dm = (storedDependencies dm f, ensureEntry f dm)"
  by (simp add: getDependencies_def storedDependencies_ensureEntry)





subsection \<open>Facts about the heap of arrays\<close>






section \<open>Failures\<close>

text \<open>
  What the resolver callback fails with: an error with a message.  bluebird's \<^verbatim>\<open>.error\<close>
  catches only a rejection with an operational error (one that comes from an explicit
  rejection, as a promisified callback gives it) and lets a thrown exception pass, so the
  error carries that bit; \<^verbatim>\<open>catch (e)\<close> in the synchronous code catches both.
\<close>

datatype ResolverError = ResolverError (operational: bool) (message: string)

text \<open>A diagnostic of the language service (\<^verbatim>\<open>ts.Diagnostic\<close>), reduced to three fields.\<close>

record Diagnostic =
  diagnosticFile :: string
  diagnosticCode :: nat
  messageText :: string

text \<open>
  The exceptions and rejections of \<^verbatim>\<open>host.ts\<close>: \<^verbatim>\<open>ResolutionError\<close> with its message, file
  name and cause; an error of the resolver that was not wrapped; a failed file read; an
  exception raised inside the language service; \<^verbatim>\<open>TypeScriptCompilationError\<close> with its diagnostics; and \<^verbatim>\<open>new Error("Emit skipped")\<close>.
\<close>

datatype Failure =
    ResolutionError string string ResolverError
  | ResolverRaised ResolverError
  | ReadError string
  | ServiceError string
  | TypeScriptCompilationError "Diagnostic list"
  | EmitSkippedError

section \<open>Path resolution\<close>

text \<open>
  \<^verbatim>\<open>path.extname\<close> and \<^verbatim>\<open>path.dirname\<close> belong to Node, not to the repository; the
  resolution functions take them as a parameter.  The resolver callback is a function
  of the base directory and the specifier, the same for both modes
  (\<^verbatim>\<open>SyncResolver\<close> throws or returns, \<^verbatim>\<open>AsyncResolver\<close> gives a promise that is rejected or
  fulfilled).  To observe which specifiers the resolver was asked for, each invocation
  is appended to a list of calls.
\<close>

record PathModule =
  extname :: "string \<Rightarrow> string"
  dirname :: "string \<Rightarrow> string"

type_synonym Resolver = "string \<Rightarrow> string \<Rightarrow> ResolverError + string"

type_synonym ResolverCalls = "(string \<times> string) list"

definition callResolver ::
    "Resolver \<Rightarrow> string \<Rightarrow> string \<Rightarrow> ResolverCalls \<Rightarrow> (ResolverError + string) \<times> ResolverCalls" where
  "callResolver resolver base dep calls = (resolver base dep, calls @ [(base, dep)])"

text \<open>\<^verbatim>\<open>/\.d\.ts$/.test(s)\<close> is \<open>endsWith ''.d.ts'' s\<close>.\<close>

definition endsWith :: "string \<Rightarrow> string \<Rightarrow> bool" where
  "endsWith suffix s = (length suffix \<le> length s \<and> drop (length s - length suffix) s = suffix)"

text \<open>The \<^verbatim>\<open>detailedError\<close> both resolution functions build in their last handler.\<close>

definition detailedError :: "string \<Rightarrow> ResolverError \<Rightarrow> Failure" where
  "detailedError fileName error =
     ResolutionError (message error @ [CHR 0x0A] @ ''    Required in '' @ fileName) fileName error"

text \<open>
  \<^verbatim>\<open>State.resolveSync(resolver, fileName, defPath)\<close>: the nested \<^verbatim>\<open>try\<close> blocks are the
  nested case distinctions, the outer \<^verbatim>\<open>catch\<close> is the last one.
\<close>

definition resolveSync ::
    "PathModule \<Rightarrow> Resolver \<Rightarrow> string \<Rightarrow> string \<Rightarrow> ResolverCalls \<Rightarrow> (Failure + string) \<times> ResolverCalls" where
  "resolveSync path resolver fileName defPath calls =
     (case
        (if extname path defPath = []
         then (case callResolver resolver (dirname path fileName) (defPath @ ''.ts'') calls of
                 (Inr p, calls1) \<Rightarrow> (Inr p, calls1)
               | (Inl e, calls1) \<Rightarrow>
                   (case callResolver resolver (dirname path fileName) (defPath @ ''.d.ts'') calls1 of
                      (Inr p, calls2) \<Rightarrow> (Inr p, calls2)
                    | (Inl e, calls2) \<Rightarrow>
                        callResolver resolver (dirname path fileName) defPath calls2))
         else if endsWith ''.d.ts'' defPath then (Inr defPath, calls)
         else callResolver resolver (dirname path fileName) defPath calls)
      of
        (Inr p, calls') \<Rightarrow> (Inr p, calls')
      | (Inl error, calls') \<Rightarrow> (Inl (detailedError fileName error), calls'))"

text \<open>
  \<^verbatim>\<open>promise.error(handler)\<close>: a fulfilled promise and a rejection that is not operational
  pass; on an operational rejection the handler runs (here it invokes the resolver again).
\<close>

definition onError ::
    "(ResolverError \<Rightarrow> ResolverCalls \<Rightarrow> (ResolverError + string) \<times> ResolverCalls)
       \<Rightarrow> (ResolverError + string) \<times> ResolverCalls \<Rightarrow> (ResolverError + string) \<times> ResolverCalls" where
  "onError handler settled =
     (case settled of
        (Inr p, calls) \<Rightarrow> (Inr p, calls)
      | (Inl e, calls) \<Rightarrow> if operational e then handler e calls else (Inl e, calls))"

text \<open>
  \<^verbatim>\<open>State.resolveAsync(resolver, fileName, defPath)\<close>, as the outcome its promise settles
  with and the resolver invocations made on the way.  The handler that throws
  \<^verbatim>\<open>detailedError\<close> is an \<^verbatim>\<open>.error\<close> handler too.
\<close>

definition resolveAsync ::
    "PathModule \<Rightarrow> Resolver \<Rightarrow> string \<Rightarrow> string \<Rightarrow> ResolverCalls \<Rightarrow> (Failure + string) \<times> ResolverCalls" where
  "resolveAsync path resolver fileName defPath calls =
     (case
        (if extname path defPath = []
         then onError (\<lambda>error. callResolver resolver (dirname path fileName) defPath)
                (onError (\<lambda>error. callResolver resolver (dirname path fileName) (defPath @ ''.d.ts''))
                   (callResolver resolver (dirname path fileName) (defPath @ ''.ts'') calls))
         else if endsWith ''.d.ts'' defPath then (Inr defPath, calls)
         else callResolver resolver (dirname path fileName) defPath calls)
      of
        (Inr p, calls') \<Rightarrow> (Inr p, calls')
      | (Inl error, calls') \<Rightarrow>
          if operational error then (Inl (detailedError fileName error), calls')
          else (Inl (ResolverRaised error), calls'))"

subsection \<open>Node's path module\<close>

text \<open>
  The POSIX variant of Node's \<^verbatim>\<open>path.extname\<close> and \<^verbatim>\<open>path.dirname\<close> (\<^verbatim>\<open>lib/path.js\<close>), for the
  examples.  Both scan the path from its end and skip the slashes it ends with; the last
  component is what stands between them and the slash before.  The extension is the part
  of the last component from its last dot on, and empty when there is no dot, when the
  only dot is the component's first character, or when the component is \<^verbatim>\<open>..\<close>.  The
  directory is the path up to the slash before the last component, that slash excluded
  and nothing else removed (\<^verbatim>\<open>/src//main.ts\<close> gives \<^verbatim>\<open>/src/\<close>); the scan does not look at
  the first character, so a path with no other slash before its last component gives
  \<^verbatim>\<open>/\<close> when it starts with a slash and \<^verbatim>\<open>.\<close> otherwise, and \<^verbatim>\<open>//a\<close> gives \<^verbatim>\<open>//\<close>.
\<close>

definition stripTrailingSlashes :: "string \<Rightarrow> string" where
  "stripTrailingSlashes p = rev (dropWhile (\<lambda>c. c = CHR ''/'') (rev p))"

definition lastComponent :: "string \<Rightarrow> string" where
  "lastComponent p = rev (takeWhile (\<lambda>c. c \<noteq> CHR ''/'') (rev (stripTrailingSlashes p)))"

definition posixExtname :: "string \<Rightarrow> string" where
  "posixExtname p =
     (let b = lastComponent p;
          e = rev (takeWhile (\<lambda>c. c \<noteq> CHR ''.'') (rev b))
      in if CHR ''.'' \<notin> set b then []
         else if b = ''..'' then []
         else if length e + 1 = length b then []
         else CHR ''.'' # e)"

definition posixDirname :: "string \<Rightarrow> string" where
  "posixDirname p =
     (let q = stripTrailingSlashes p;
          b = lastComponent p
      in if p = [] then ''.''
         else if q = [] then ''/''
         else if length b = length q then ''.''
         else if length q - length b - 1 = 0 then ''/''
         else if length q - length b - 1 = 1 \<and> hd p = CHR ''/'' then ''//''
         else take (length q - length b - 1) p)"

definition nodePath :: PathModule where
  "nodePath = \<lparr>extname = posixExtname, dirname = posixDirname\<rparr>"


lemma endsWith_append: "endsWith suffix s = (\<exists>q. s = q @ suffix)"
  unfolding endsWith_def
  by (metis append_eq_conv_conj append_take_drop_id diff_add_inverse2 length_append le_add2 length_drop)


section \<open>Compilation facade: emission and diagnostics\<close>

text \<open>
  The language service (\<^verbatim>\<open>this.services\<close>) is the external semantic engine; its four
  queries that \<^verbatim>\<open>emitAndCheck\<close> uses are a parameter.
\<close>

record EmitOutput =
  outputFiles :: "(string \<times> string) list"
  emitSkipped :: bool

record LanguageService =
  getEmitOutput :: "string \<Rightarrow> EmitOutput"
  getCompilerOptionsDiagnostics :: "Diagnostic list"
  getSyntacticDiagnostics :: "string \<Rightarrow> Diagnostic list"
  getSemanticDiagnostics :: "string \<Rightarrow> Diagnostic list"

text \<open>
  \<^verbatim>\<open>State.emitAndCheck(fileName)\<close>.  The \<^verbatim>\<open>forEach\<close> over \<^verbatim>\<open>Object.keys(this.files)\<close> is the
  fold; \<^verbatim>\<open>depsDiagnostics\<close> is always the empty object and is left out.
\<close>

definition emitAndCheck :: "LanguageService \<Rightarrow> File jsobj \<Rightarrow> string \<Rightarrow> Failure + EmitOutput" where
  "emitAndCheck services files fileName =
     (let output = getEmitOutput services fileName;
          diagnostics =
            fold (\<lambda>fileName diagnostics.
                    (diagnostics @ getSyntacticDiagnostics services fileName)
                      @ getSemanticDiagnostics services fileName)
              (objectKeys files) (getCompilerOptionsDiagnostics services)
      in if diagnostics \<noteq> [] then Inl (TypeScriptCompilationError diagnostics)
         else if \<not> emitSkipped output then Inr output
         else Inl EmitSkippedError)"

text \<open>
  In the words of the specification: the global configuration diagnostics, then the
  syntactic and semantic diagnostics of every known unit.
\<close>

definition allDiagnostics :: "LanguageService \<Rightarrow> File jsobj \<Rightarrow> Diagnostic list" where
  "allDiagnostics services files =
     getCompilerOptionsDiagnostics services
       @ concat (map (\<lambda>f. getSyntacticDiagnostics services f @ getSemanticDiagnostics services f)
                  (objectKeys files))"

lemma fold_diagnostics:
  "fold (\<lambda>f ds. ds @ syn f @ sem f) fs acc = acc @ concat (map (\<lambda>f. syn f @ sem f) fs)"
  by (induction fs arbitrary: acc) simp_all

lemma emitAndCheck_eq:
  "emitAndCheck services files fileName =
     (if allDiagnostics services files \<noteq> []
      then Inl (TypeScriptCompilationError (allDiagnostics services files))
      else if \<not> emitSkipped (getEmitOutput services fileName)
      then Inr (getEmitOutput services fileName)
      else Inl EmitSkippedError)"
  by (simp add: emitAndCheck_def allDiagnostics_def fold_diagnostics Let_def)



section \<open>Build session state and its collaborators\<close>

text \<open>
  The engine below is instrumented with a journal: every entry into
  \<^verbatim>\<open>checkDependencies\<close> or \<^verbatim>\<open>checkDependenciesSync\<close>, every \<^verbatim>\<open>addDependency\<close> and every
  \<^verbatim>\<open>addTypeDeclaration\<close> it performs appends an entry.  The journal is not read by the code.
\<close>

datatype JournalEntry =
    Checked string
  | EdgeRecorded string string
  | DeclarationRecorded string

text \<open>
  \<^verbatim>\<open>class State\<close>: the unit store \<^verbatim>\<open>files\<close>, \<^verbatim>\<open>dependencies\<close> (here \<open>manager\<close>), the flags of
  \<^verbatim>\<open>validFiles\<close>, and the latch \<^verbatim>\<open>runtimeRead\<close>.
\<close>

record State =
  files :: "File jsobj"
  manager :: DependencyManager
  validFiles :: FileSet
  runtimeRead :: bool
  journal :: "JournalEntry list"

text \<open>
  What a session is given from outside: Node's path module, the resolver callback, the
  file system (\<^verbatim>\<open>fs.readFile\<close> and \<^verbatim>\<open>fs.readFileSync\<close>: an error message or the text), the
  language service, and the import extraction.  \<^verbatim>\<open>findImportDeclarations\<close> walks the tree of
  \<^verbatim>\<open>this.services.getSourceFile(fileName)\<close>; the service gets a unit's text from
  \<^verbatim>\<open>Host.getScriptSnapshot\<close>, which returns the text in the store, or \<^verbatim>\<open>null\<close> for a unit
  that is not in the store.  So the extractor is a function of the file name and of that
  snapshot, and it may raise.
\<close>

record World =
  pathModule :: PathModule
  resolver :: Resolver
  readFile :: "string \<Rightarrow> string + string"
  importExtractor :: "string \<Rightarrow> string option \<Rightarrow> Failure + string list"
  services :: LanguageService

text \<open>\<^verbatim>\<open>class ValidManager\<close>.\<close>

definition isFileValid :: "State \<Rightarrow> string \<Rightarrow> bool" where
  "isFileValid s fileName = truthy (validFiles s) fileName"

definition markFileValid :: "string \<Rightarrow> State \<Rightarrow> State" where
  "markFileValid fileName s = s\<lparr>validFiles := AList.update fileName True (validFiles s)\<rparr>"

definition markFileInvalid :: "string \<Rightarrow> State \<Rightarrow> State" where
  "markFileInvalid fileName s = s\<lparr>validFiles := AList.update fileName False (validFiles s)\<rparr>"

text \<open>
  \<^verbatim>\<open>Host.getScriptSnapshot(fileName)\<close>, as the text the snapshot gives (\<open>None\<close> is
  \<^verbatim>\<open>null\<close>), and \<^verbatim>\<open>State.findImportDeclarations(fileName)\<close>.
\<close>

definition getScriptSnapshot :: "State \<Rightarrow> string \<Rightarrow> string option" where
  "getScriptSnapshot s fileName = map_option file_text (map_of (files s) fileName)"

definition findImportDeclarations :: "World \<Rightarrow> State \<Rightarrow> string \<Rightarrow> Failure + string list" where
  "findImportDeclarations w s fileName = importExtractor w fileName (getScriptSnapshot s fileName)"

text \<open>
  \<^verbatim>\<open>/\.d.ts$/.exec(depFileName)\<close>: the dot between \<^verbatim>\<open>d\<close> and \<^verbatim>\<open>ts\<close> is not escaped, so it
  stands for any character but a line terminator.  \<^verbatim>\<open>/\.js$/.exec(depFileName)\<close> is a plain
  suffix test.
\<close>

definition isTypeDeclaration :: "string \<Rightarrow> bool" where
  "isTypeDeclaration depFileName =
     (case rev depFileName of
        c5 # c4 # c3 # c2 # c1 # _ \<Rightarrow>
          c1 = CHR ''.'' \<and> c2 = CHR ''d'' \<and> c3 \<noteq> CHR 0x0A \<and> c3 \<noteq> CHR 0x0D \<and>
          c4 = CHR ''t'' \<and> c5 = CHR ''s''
      | _ \<Rightarrow> False)"

definition isRequiredModule :: "string \<Rightarrow> bool" where
  "isRequiredModule depFileName = endsWith ''.js'' depFileName"

text \<open>
  The first statement of \<^verbatim>\<open>checkDependencies\<close> and \<^verbatim>\<open>checkDependenciesSync\<close>, and the two
  writes of the classification, each with its journal entry.
\<close>

definition beginCheck :: "string \<Rightarrow> State \<Rightarrow> State" where
  "beginCheck fileName s =
     s\<lparr>manager := clearDependencies fileName (manager s),
       journal := journal s @ [Checked fileName]\<rparr>"

definition recordDeclaration :: "string \<Rightarrow> State \<Rightarrow> State" where
  "recordDeclaration depFileName s =
     s\<lparr>manager := addTypeDeclaration depFileName (manager s),
       journal := journal s @ [DeclarationRecorded depFileName]\<rparr>"

definition recordDependency :: "string \<Rightarrow> string \<Rightarrow> State \<Rightarrow> State" where
  "recordDependency fileName depFileName s =
     s\<lparr>manager := addDependency fileName depFileName (manager s),
       journal := journal s @ [EdgeRecorded fileName depFileName]\<rparr>"

text \<open>
  \<^verbatim>\<open>readFileAndUpdateSync(fileName, checked)\<close>, and the continuation of
  \<^verbatim>\<open>readFileAndUpdateAsync\<close> once the read has ended.
\<close>

definition applyRead :: "World \<Rightarrow> string \<Rightarrow> bool \<Rightarrow> State \<Rightarrow> Failure + State" where
  "applyRead w fileName checkedFlag s =
     (case readFile w fileName of
        Inl msg \<Rightarrow> Inl (ReadError msg)
      | Inr txt \<Rightarrow> Inr (s\<lparr>files := snd (updateFile fileName txt checkedFlag (files s))\<rparr>))"

section \<open>Dependency resolution, sequential mode\<close>

text \<open>
  The first \<^verbatim>\<open>.map\<close> of \<^verbatim>\<open>checkDependenciesInternalSync\<close>: every import is resolved before
  any of them is classified, and the first failure is thrown.
\<close>

fun resolveAllSync :: "World \<Rightarrow> string \<Rightarrow> string list \<Rightarrow> Failure + string list" where
  "resolveAllSync w fileName [] = Inr []"
| "resolveAllSync w fileName (depRelFileName # rest) =
     (case fst (resolveSync (pathModule w) (resolver w) fileName depRelFileName []) of
        Inl e \<Rightarrow> Inl e
      | Inr depFileName \<Rightarrow>
          (case resolveAllSync w fileName rest of
             Inl e \<Rightarrow> Inl e
           | Inr deps \<Rightarrow> Inr (depFileName # deps)))"

text \<open>
  \<^verbatim>\<open>checkDependenciesSync\<close>, \<^verbatim>\<open>checkDependenciesInternalSync\<close> and the callback of its second
  \<^verbatim>\<open>.map\<close>, run over the resolved names in order.  A result is the exception that ended the
  call, if any, and the state it left; the arrays the two functions return are used by no
  caller and are left out.  The source graph is whatever the collaborators make it, so
  the depth of the recursion is bounded by \<open>fuel\<close>: \<open>None\<close> is a call that needed more.
  \<^verbatim>\<open>try { ... } finally { markFileInvalid }\<close> is the \<open>markFileInvalid\<close> on both results of
  the inner call.
\<close>

fun checkDependenciesSync :: "World \<Rightarrow> nat \<Rightarrow> string \<Rightarrow> State \<Rightarrow> (Failure option \<times> State) option"
  and checkDependenciesInternalSync :: "World \<Rightarrow> nat \<Rightarrow> string \<Rightarrow> State \<Rightarrow> (Failure option \<times> State) option"
  and processSync :: "World \<Rightarrow> nat \<Rightarrow> string \<Rightarrow> string list \<Rightarrow> State \<Rightarrow> (Failure option \<times> State) option"
  where
  "checkDependenciesSync w fuel fileName s =
     (let s1 = beginCheck fileName s
      in if map_of (files s1) fileName = None
         then (case applyRead w fileName False s1 of
                 Inl e \<Rightarrow> Some (Some e, s1)
               | Inr s2 \<Rightarrow> checkDependenciesInternalSync w fuel fileName s2)
         else checkDependenciesInternalSync w fuel fileName s1)"
| "checkDependenciesInternalSync w fuel fileName s =
     (case findImportDeclarations w s fileName of
        Inl e \<Rightarrow> Some (Some e, s)
      | Inr imports \<Rightarrow>
          (case resolveAllSync w fileName imports of
             Inl e \<Rightarrow> Some (Some e, s)
           | Inr deps \<Rightarrow> processSync w fuel fileName deps s))"
| "processSync w fuel fileName [] s = Some (None, s)"
| "processSync w fuel fileName (depFileName # rest) s =
     (if isTypeDeclaration depFileName
      then if \<not> hasTypeDeclaration (manager s) depFileName
           then (case fuel of
                   0 \<Rightarrow> None
                 | Suc n \<Rightarrow>
                     (case checkDependenciesSync w n depFileName (recordDeclaration depFileName s) of
                        None \<Rightarrow> None
                      | Some (Some e, s1) \<Rightarrow> Some (Some e, s1)
                      | Some (None, s1) \<Rightarrow> processSync w fuel fileName rest s1))
           else processSync w fuel fileName rest s
      else if isRequiredModule depFileName then processSync w fuel fileName rest s
      else (let s1 = recordDependency fileName depFileName s
            in if \<not> isFileValid s1 depFileName
               then (case fuel of
                       0 \<Rightarrow> None
                     | Suc n \<Rightarrow>
                         (case checkDependenciesSync w n depFileName (markFileValid depFileName s1) of
                            None \<Rightarrow> None
                          | Some (Some e, s2) \<Rightarrow> Some (Some e, markFileInvalid depFileName s2)
                          | Some (None, s2) \<Rightarrow>
                              processSync w fuel fileName rest (markFileInvalid depFileName s2)))
               else processSync w fuel fileName rest s1))"

section \<open>Compilation facade\<close>

text \<open>
  \<^verbatim>\<open>invokeRuntime\<close> (the emission of the runtime declarations has no effect on the session
  but the latch), \<^verbatim>\<open>applyDeps\<close> and \<^verbatim>\<open>emitSync\<close>.  \<^verbatim>\<open>emitSync\<close> returns what it returned or
  threw, the calls the accumulator has received, and the session.
\<close>

definition invokeRuntime :: "State \<Rightarrow> State" where
  "invokeRuntime s = (if \<not> runtimeRead s then s\<lparr>runtimeRead := True\<rparr> else s)"

definition applyDeps :: "string \<Rightarrow> DepCall list \<Rightarrow> State \<Rightarrow> DepCall list \<times> State" where
  "applyDeps fileName depsManager s =
     (let c = applyChain fileName (chainStart (manager s) (depsManager @ [Clear, Add fileName]))
      in (chainCalls c, s\<lparr>manager := chainManager c\<rparr>))"

definition emitSync ::
    "World \<Rightarrow> nat \<Rightarrow> string \<Rightarrow> string \<Rightarrow> DepCall list \<Rightarrow> State
       \<Rightarrow> ((Failure + EmitOutput) \<times> DepCall list \<times> State) option" where
  "emitSync w fuel fileName txt depsManager s =
     (case checkDependenciesSync w fuel fileName (invokeRuntime s) of
        None \<Rightarrow> None
      | Some (Some e, s1) \<Rightarrow> Some (Inl e, depsManager, s1)
      | Some (None, s1) \<Rightarrow>
          (let r = emitAndCheck (services w) (files s1) fileName;
               (depsManager1, s2) = applyDeps fileName depsManager s1
           in Some (r, depsManager1, s2)))"

section \<open>A small world for the examples\<close>

text \<open>
  A disk is a list of paths with their texts.  In the examples a unit's text is the list of
  its import specifiers, separated by semicolons; a specifier \<^verbatim>\<open>./x\<close> resolves to
  \<^verbatim>\<open>base/x\<close> when that path is on the disk; and the service raises for a unit it has no
  snapshot of.
\<close>

text \<open>A language service whose only diagnostics are the semantic ones \<open>ds\<close> of \<^verbatim>\<open>/b.ts\<close>.\<close>

definition exampleService :: "Diagnostic list \<Rightarrow> bool \<Rightarrow> LanguageService" where
  "exampleService ds skipped =
     \<lparr>getEmitOutput = (\<lambda>f. \<lparr>outputFiles = [(f @ ''.js'', ''var b = 1;'')], emitSkipped = skipped\<rparr>),
      getCompilerOptionsDiagnostics = [],
      getSyntacticDiagnostics = (\<lambda>f. []),
      getSemanticDiagnostics = (\<lambda>f. if f = ''/b.ts'' then ds else [])\<rparr>"

definition fields :: "string \<Rightarrow> string list" where
  "fields s =
     (if s = [] then []
      else foldr (\<lambda>c acc. if c = CHR '';'' then [] # acc else (c # hd acc) # tl acc) s [[]])"

definition diskWorld :: "(string \<times> string) list \<Rightarrow> World" where
  "diskWorld disk =
     \<lparr>pathModule = nodePath,
      resolver = (\<lambda>base dep.
         if map_of disk (base @ ''/'' @ drop 2 dep) \<noteq> None then Inr (base @ ''/'' @ drop 2 dep)
         else Inl (ResolverError True (''Cannot resolve module '' @ dep))),
      readFile = (\<lambda>f. case map_of disk f of None \<Rightarrow> Inl ''ENOENT'' | Some t \<Rightarrow> Inr t),
      importExtractor = (\<lambda>f snapshot.
         case snapshot of None \<Rightarrow> Inl (ServiceError (''Could not find file: '' @ f))
         | Some t \<Rightarrow> Inr (fields t)),
      services = exampleService [] False\<rparr>"

definition emptySession :: State where
  "emptySession = \<lparr>files = [], manager = newDependencyManager, validFiles = [], runtimeRead = False,
                journal = []\<rparr>"

definition twoUnits :: "(string \<times> string) list" where
  "twoUnits = [(''/src/main.ts'', ''./b''), (''/src/b.ts'', [])]"

section \<open>Dependency resolution, concurrent mode\<close>

text \<open>
  The concurrent mode is a chain of bluebird promises.  Its callbacks run one at a time,
  each to its end, so a run is a sequence of steps, one per settled promise, over the
  session and a pool of promises that have settled or will settle and whose reaction has
  not run yet.  Which of them is next is not fixed by the code (a resolver or a read may
  answer at any time); a run is driven by a schedule that picks positions in the pool.

  Every call of \<^verbatim>\<open>checkDependencies\<close> is a frame: the unit, who waits for it (the caller of
  \<^verbatim>\<open>emitAsync\<close>, or the callback of an import that resolved to a declaration or to an
  ordinary unit), whether the call started a read, and how far it is: waiting for
  \<^verbatim>\<open>flow\<close>, inside \<^verbatim>\<open>Promise.all\<close> with so many imports not yet fulfilled, or settled.
  Every import of a frame is a task.
\<close>

datatype Parent = Root | FromDeclaration nat | FromEdge nat

datatype FrameStatus = AwaitingFlow | Joining nat | Settled

record Frame =
  frameUnit :: string
  frameParent :: Parent
  frameReads :: bool
  frameStatus :: FrameStatus

record Task =
  taskFrame :: nat
  taskSpecifier :: string

text \<open>
  The pool: \<^verbatim>\<open>flow\<close> of a frame has settled; \<^verbatim>\<open>resolveAsync\<close> of a task has settled; the
  promise of a task (the \<^verbatim>\<open>.then\<close> of the second \<^verbatim>\<open>.map\<close>) has settled; the promise
  \<^verbatim>\<open>checkDependencies\<close> returned for a frame has settled.  The last two carry the
  rejection reason, if any.
\<close>

datatype Event =
    FlowSettled nat
  | Resolved nat
  | TaskSettled nat "Failure option"
  | FrameSettled nat "Failure option"

record AsyncState =
  session :: State
  frames :: "Frame list"
  tasks :: "Task list"
  queue :: "Event list"
  accumulator :: "DepCall list"
  outcome :: "(Failure + EmitOutput) option"

definition enqueue :: "Event list \<Rightarrow> AsyncState \<Rightarrow> AsyncState" where
  "enqueue evs a = a\<lparr>queue := queue a @ evs\<rparr>"

definition settleFrame :: "nat \<Rightarrow> Failure option \<Rightarrow> AsyncState \<Rightarrow> AsyncState" where
  "settleFrame j r a =
     enqueue [FrameSettled j r]
       (a\<lparr>frames := (frames a)[j := (frames a ! j)\<lparr>frameStatus := Settled\<rparr>]\<rparr>)"

text \<open>
  \<^verbatim>\<open>checkDependencies(resolver, fileName)\<close> up to its \<^verbatim>\<open>return\<close>: the list of the unit is
  cleared and, if the unit is in the store, a read is started; \<^verbatim>\<open>flow\<close> settles later.
\<close>

definition checkDependencies :: "string \<Rightarrow> Parent \<Rightarrow> AsyncState \<Rightarrow> AsyncState" where
  "checkDependencies fileName parent a =
     (let s1 = beginCheck fileName (session a);
          fr = \<lparr>frameUnit = fileName, frameParent = parent,
                frameReads = (map_of (files s1) fileName \<noteq> None), frameStatus = AwaitingFlow\<rparr>
      in enqueue [FlowSettled (length (frames a))] (a\<lparr>session := s1, frames := frames a @ [fr]\<rparr>))"

text \<open>
  \<^verbatim>\<open>checkDependenciesInternalAsync\<close> up to its \<^verbatim>\<open>return\<close>: an exception of the import extraction
  rejects the frame; otherwise every import becomes a task whose resolution is under way,
  and \<^verbatim>\<open>Promise.all\<close> of no promise is fulfilled at once.
\<close>

definition checkDependenciesInternalAsync :: "World \<Rightarrow> nat \<Rightarrow> AsyncState \<Rightarrow> AsyncState" where
  "checkDependenciesInternalAsync w j a =
     (case findImportDeclarations w (session a) (frameUnit (frames a ! j)) of
        Inl e \<Rightarrow> settleFrame j (Some e) a
      | Inr imports \<Rightarrow>
          if imports = [] then settleFrame j None a
          else enqueue (map Resolved [length (tasks a) ..< length (tasks a) + length imports])
                 (a\<lparr>tasks := tasks a @ map (\<lambda>spec. \<lparr>taskFrame = j, taskSpecifier = spec\<rparr>) imports,
                    frames := (frames a)[j := (frames a ! j)\<lparr>frameStatus := Joining (length imports)\<rparr>]\<rparr>))"

text \<open>\<^verbatim>\<open>flow.then(() => this.checkDependenciesInternalAsync(resolver, fileName))\<close>.\<close>

definition onFlowSettled :: "World \<Rightarrow> nat \<Rightarrow> AsyncState \<Rightarrow> AsyncState" where
  "onFlowSettled w j a =
     (if frameReads (frames a ! j)
      then (case applyRead w (frameUnit (frames a ! j)) False (session a) of
              Inl e \<Rightarrow> settleFrame j (Some e) a
            | Inr s1 \<Rightarrow> checkDependenciesInternalAsync w j (a\<lparr>session := s1\<rparr>))
      else checkDependenciesInternalAsync w j a)"

text \<open>
  The callback of the second \<^verbatim>\<open>.map\<close>, \<^verbatim>\<open>depFileNamePromise.then(depFileName => ...)\<close>; a
  rejected resolution rejects the task.
\<close>

definition onResolved :: "World \<Rightarrow> nat \<Rightarrow> AsyncState \<Rightarrow> AsyncState" where
  "onResolved w c a =
     (let fileName = frameUnit (frames a ! taskFrame (tasks a ! c));
          s = session a
      in case fst (resolveAsync (pathModule w) (resolver w) fileName (taskSpecifier (tasks a ! c)) []) of
           Inl e \<Rightarrow> enqueue [TaskSettled c (Some e)] a
         | Inr depFileName \<Rightarrow>
             if isTypeDeclaration depFileName
             then if \<not> hasTypeDeclaration (manager s) depFileName
                  then checkDependencies depFileName (FromDeclaration c)
                         (a\<lparr>session := recordDeclaration depFileName s\<rparr>)
                  else enqueue [TaskSettled c None] a
             else if isRequiredModule depFileName then enqueue [TaskSettled c None] a
             else (let s1 = recordDependency fileName depFileName s
                   in if \<not> isFileValid s1 depFileName
                      then checkDependencies depFileName (FromEdge c)
                             (a\<lparr>session := markFileValid depFileName s1\<rparr>)
                      else enqueue [TaskSettled c None] (a\<lparr>session := s1\<rparr>)))"

text \<open>
  \<^verbatim>\<open>Promise.all\<close>: the first rejection rejects the frame, the last fulfilment fulfils it, and
  a frame that is settled ignores what comes later.
\<close>

definition onTaskSettled :: "nat \<Rightarrow> Failure option \<Rightarrow> AsyncState \<Rightarrow> AsyncState" where
  "onTaskSettled c r a =
     (let j = taskFrame (tasks a ! c)
      in case frameStatus (frames a ! j) of
           Joining n \<Rightarrow>
             (case r of
                Some e \<Rightarrow> settleFrame j (Some e) a
              | None \<Rightarrow>
                  if n \<le> 1 then settleFrame j None a
                  else a\<lparr>frames := (frames a)[j := (frames a ! j)\<lparr>frameStatus := Joining (n - 1)\<rparr>]\<rparr>)
         | _ \<Rightarrow> a)"

text \<open>
  What waits for a frame: \<^verbatim>\<open>.then(() => result)\<close> for a declaration;
  \<^verbatim>\<open>.catch(ResolutionError, ...)\<close> and then \<^verbatim>\<open>.then(() => result)\<close> for an ordinary unit; and
  for the first frame the rest of \<^verbatim>\<open>emitAsync\<close>,
  \<^verbatim>\<open>.then((deps) => this.emitAndCheck(fileName)).finally(() => this.applyDeps(...))\<close>.
\<close>

definition isResolutionError :: "Failure \<Rightarrow> bool" where
  "isResolutionError e = (case e of ResolutionError m f c \<Rightarrow> True | _ \<Rightarrow> False)"

definition onRootSettled :: "World \<Rightarrow> string \<Rightarrow> Failure option \<Rightarrow> AsyncState \<Rightarrow> AsyncState" where
  "onRootSettled w fileName r a =
     (let result = (case r of
                      None \<Rightarrow> emitAndCheck (services w) (files (session a)) fileName
                    | Some e \<Rightarrow> Inl e);
          (depsManager, s1) = applyDeps fileName (accumulator a) (session a)
      in a\<lparr>session := s1, accumulator := depsManager, outcome := Some result\<rparr>)"

definition onFrameSettled :: "World \<Rightarrow> nat \<Rightarrow> Failure option \<Rightarrow> AsyncState \<Rightarrow> AsyncState" where
  "onFrameSettled w j r a =
     (let depFileName = frameUnit (frames a ! j)
      in case frameParent (frames a ! j) of
           Root \<Rightarrow> onRootSettled w depFileName r a
         | FromDeclaration c \<Rightarrow> enqueue [TaskSettled c r] a
         | FromEdge c \<Rightarrow>
             (case r of
                Some e \<Rightarrow>
                  if isResolutionError e
                  then enqueue [TaskSettled c r] (a\<lparr>session := markFileInvalid depFileName (session a)\<rparr>)
                  else enqueue [TaskSettled c r] a
              | None \<Rightarrow> enqueue [TaskSettled c r] a))"

text \<open>One step, and a run under a schedule (a position outside the pool is skipped).\<close>

definition asyncStep :: "World \<Rightarrow> Event \<Rightarrow> AsyncState \<Rightarrow> AsyncState" where
  "asyncStep w ev a =
     (case ev of
        FlowSettled j \<Rightarrow> if j < length (frames a) then onFlowSettled w j a else a
      | Resolved c \<Rightarrow>
          if c < length (tasks a) \<and> taskFrame (tasks a ! c) < length (frames a)
          then onResolved w c a else a
      | TaskSettled c r \<Rightarrow>
          if c < length (tasks a) \<and> taskFrame (tasks a ! c) < length (frames a)
          then onTaskSettled c r a else a
      | FrameSettled j r \<Rightarrow> if j < length (frames a) then onFrameSettled w j r a else a)"

fun asyncRun :: "World \<Rightarrow> nat list \<Rightarrow> AsyncState \<Rightarrow> AsyncState" where
  "asyncRun w [] a = a"
| "asyncRun w (i # sched) a =
     (if i < length (queue a)
      then asyncRun w sched
             (asyncStep w (queue a ! i) (a\<lparr>queue := take i (queue a) @ drop (Suc i) (queue a)\<rparr>))
      else asyncRun w sched a)"

text \<open>\<^verbatim>\<open>emitAsync\<close> up to its \<^verbatim>\<open>return\<close>; the run continues with \<open>asyncRun\<close>.\<close>

definition emitAsync :: "World \<Rightarrow> string \<Rightarrow> string \<Rightarrow> DepCall list \<Rightarrow> State \<Rightarrow> AsyncState" where
  "emitAsync w fileName txt depsManager s =
     checkDependencies fileName Root
       \<lparr>session = invokeRuntime s, frames = [], tasks = [], queue = [],
        accumulator = depsManager, outcome = None\<rparr>"

section \<open>Compiled modules stay outside\<close>

text \<open>
  The unit a journal entry is about, and the relation between two states of a session in
  which nothing was done for a path ending in \<^verbatim>\<open>.js\<close>: the journal has grown by entries for
  other paths only, no list of the graph has gained such a path, and the registry has
  gained none.
\<close>

definition journalTarget :: "JournalEntry \<Rightarrow> string" where
  "journalTarget e =
     (case e of Checked f \<Rightarrow> f | EdgeRecorded f d \<Rightarrow> d | DeclarationRecorded d \<Rightarrow> d)"

definition opaque :: "State \<Rightarrow> State \<Rightarrow> bool" where
  "opaque s s' =
     ((\<exists>new. journal s' = journal s @ new \<and>
             (\<forall>e \<in> set new. \<not> isRequiredModule (journalTarget e))) \<and>
      (\<forall>f d. d \<in> set (storedDependencies (manager s') f) \<and> isRequiredModule d
             \<longrightarrow> d \<in> set (storedDependencies (manager s) f)) \<and>
      (\<forall>d. hasTypeDeclaration (manager s') d \<and> isRequiredModule d
             \<longrightarrow> hasTypeDeclaration (manager s) d))"

lemma opaque_refl: "opaque s s"
  by (simp add: opaque_def)

lemma opaque_trans: "opaque s1 s2 \<Longrightarrow> opaque s2 s3 \<Longrightarrow> opaque s1 s3"
  unfolding opaque_def by (elim conjE exE) (auto simp: ball_Un)

lemma opaque_same:
  "manager s' = manager s \<Longrightarrow> journal s' = journal s \<Longrightarrow> opaque s s'"
  by (simp add: opaque_def)

lemma required_not_declaration: "isRequiredModule d \<Longrightarrow> \<not> isTypeDeclaration d"
proof -
  assume "isRequiredModule d"
  then obtain q where "d = q @ ''.js''" by (auto simp: isRequiredModule_def endsWith_append)
  then show ?thesis by (simp add: isTypeDeclaration_def split: list.splits)
qed

lemma known_clearDependencies [simp]:
  "knownTypeDeclarations (clearDependencies f dm) = knownTypeDeclarations dm"
  by (simp add: clearDependencies_def)

lemma known_addDependency [simp]:
  "knownTypeDeclarations (addDependency f d dm) = knownTypeDeclarations dm"
  by (simp add: addDependency_def ensureEntry_def Let_def)

lemma dependencies_addTypeDeclaration [simp]:
  "dependencies (addTypeDeclaration d dm) = dependencies dm"
  by (simp add: addTypeDeclaration_def)

lemma storedDependencies_clear:
  "storedDependencies (clearDependencies f dm) g = (if g = f then [] else storedDependencies dm g)"
  by (simp add: storedDependencies_def clearDependencies_def update_conv')

lemma storedDependencies_add:
  "storedDependencies (addDependency f d dm) g =
     (if g = f then storedDependencies dm f @ [d] else storedDependencies dm g)"
  by (auto simp: storedDependencies_def addDependency_def ensureEntry_def clearDependencies_def
      hasOwnProperty_def Let_def map_of_map_entry update_conv' split: option.splits)

lemma opaque_beginCheck: "\<not> isRequiredModule f \<Longrightarrow> opaque s (beginCheck f s)"
  by (simp add: opaque_def beginCheck_def journalTarget_def storedDependencies_clear
      hasTypeDeclaration_def)

lemma opaque_recordDeclaration: "\<not> isRequiredModule d \<Longrightarrow> opaque s (recordDeclaration d s)"
  by (auto simp: opaque_def recordDeclaration_def journalTarget_def storedDependencies_def
      hasTypeDeclaration_def hasOwnProperty_def addTypeDeclaration_def update_conv' split: if_splits)

lemma opaque_recordDependency: "\<not> isRequiredModule d \<Longrightarrow> opaque s (recordDependency f d s)"
  by (auto simp: opaque_def recordDependency_def journalTarget_def storedDependencies_add
      hasTypeDeclaration_def)

lemma applyRead_frame:
  "applyRead w f c s = Inr s' \<Longrightarrow> manager s' = manager s \<and> journal s' = journal s \<and> validFiles s' = validFiles s"
  by (auto simp: applyRead_def split: sum.splits)

lemma opaque_sync:
  "checkDependenciesSync w fuel fileName s = Some (r, s') \<Longrightarrow> opaque (beginCheck fileName s) s'"
  "checkDependenciesInternalSync w fuel fileName s = Some (r, s') \<Longrightarrow> opaque s s'"
  "processSync w fuel fileName deps s = Some (r, s') \<Longrightarrow> opaque s s'"
proof (induction w fuel fileName s and w fuel fileName s and w fuel fileName deps s
    arbitrary: r s' and r s' and r s'
    rule: checkDependenciesSync_checkDependenciesInternalSync_processSync.induct)
  case (1 w fuel fileName s)
  show ?case
  proof (cases "map_of (files (beginCheck fileName s)) fileName = None")
    case True
    show ?thesis
    proof (cases "applyRead w fileName False (beginCheck fileName s)")
      case (Inl e)
      with True 1(3) show ?thesis by (auto simp: Let_def opaque_refl)
    next
      case (Inr s2)
      with True 1(3) have "checkDependenciesInternalSync w fuel fileName s2 = Some (r, s')"
        by (simp add: Let_def)
      from 1(1)[OF refl True Inr this] have "opaque s2 s'" .
      moreover have "opaque (beginCheck fileName s) s2"
        using applyRead_frame[OF Inr] by (simp add: opaque_same)
      ultimately show ?thesis by (rule opaque_trans[rotated])
    qed
  next
    case False
    with 1(3) have "checkDependenciesInternalSync w fuel fileName (beginCheck fileName s) = Some (r, s')"
      by (simp add: Let_def)
    from 1(2)[OF refl False this] show ?thesis .
  qed
next
  case (2 w fuel fileName s)
  then show ?case by (auto simp: opaque_refl split: sum.splits)
next
  case (3 w fuel fileName s)
  then show ?case by (simp add: opaque_refl)
next
  case (4 w fuel fileName depFileName rest s)
  show ?case
  proof (cases "isTypeDeclaration depFileName")
    case decl: True
    then have nj: "\<not> isRequiredModule depFileName" using required_not_declaration by blast
    show ?thesis
    proof (cases "hasTypeDeclaration (manager s) depFileName")
      case True
      with decl 4(3)[OF decl] 4(8) show ?thesis by simp
    next
      case False
      from decl False 4(8) obtain n where fuel: "fuel = Suc n"
        by (cases fuel) auto
      let ?s0 = "recordDeclaration depFileName s"
      from decl False fuel 4(8) obtain r1 s1
        where c: "checkDependenciesSync w n depFileName ?s0 = Some (r1, s1)"
        by (auto split: option.splits)
      have a: "opaque s s1"
        using opaque_trans[OF opaque_trans[OF opaque_recordDeclaration[OF nj, of s]
              opaque_beginCheck[OF nj, of ?s0]] 4(1)[OF decl _ fuel c]] False by simp
      show ?thesis
      proof (cases r1)
        case None
        with decl False fuel c 4(8) have "processSync w fuel fileName rest s1 = Some (r, s')"
          by simp
        from 4(2)[OF decl _ fuel c[unfolded None] refl refl this] False a show ?thesis
          by (auto intro: opaque_trans)
      next
        case (Some e)
        with decl False fuel c 4(8) a show ?thesis by simp
      qed
    qed
  next
    case nd: False
    show ?thesis
    proof (cases "isRequiredModule depFileName")
      case True
      with nd 4(4)[OF nd True] 4(8) show ?thesis by simp
    next
      case nj: False
      let ?s1 = "recordDependency fileName depFileName s"
      have o1: "opaque s ?s1" by (rule opaque_recordDependency[OF nj])
      show ?thesis
      proof (cases "isFileValid ?s1 depFileName")
        case True
        with nd nj 4(7)[OF nd nj refl] 4(8) o1 show ?thesis
          by (auto simp: Let_def intro: opaque_trans)
      next
        case False
        from nd nj False 4(8) obtain n where fuel: "fuel = Suc n"
          by (cases fuel) (auto simp: Let_def)
        let ?s2 = "markFileValid depFileName ?s1"
        from nd nj False fuel 4(8) obtain r1 s3
          where c: "checkDependenciesSync w n depFileName ?s2 = Some (r1, s3)"
          by (auto simp: Let_def split: option.splits)
        have o2: "opaque ?s1 ?s2" by (simp add: opaque_same markFileValid_def)
        have o3: "opaque ?s2 (beginCheck depFileName ?s2)" by (rule opaque_beginCheck[OF nj])
        have o4: "opaque (beginCheck depFileName ?s2) s3"
          using 4(5)[OF nd nj refl _ fuel c] False by simp
        have o5: "opaque s3 (markFileInvalid depFileName s3)"
          by (simp add: opaque_same markFileInvalid_def)
        have a: "opaque s (markFileInvalid depFileName s3)"
          using o1 o2 o3 o4 o5 by (blast intro: opaque_trans)
        show ?thesis
        proof (cases r1)
          case None
          with nd nj False fuel c 4(8)
          have "processSync w fuel fileName rest (markFileInvalid depFileName s3) = Some (r, s')"
            by (simp add: Let_def)
          from 4(6)[OF nd nj refl _ fuel c[unfolded None] refl refl this] False a show ?thesis
            by (auto intro: opaque_trans)
        next
          case (Some e)
          with nd nj False fuel c 4(8) a show ?thesis by (simp add: Let_def)
        qed
      qed
    qed
  qed
qed

lemma known_ensureEntry [simp]:
  "knownTypeDeclarations (ensureEntry f dm) = knownTypeDeclarations dm"
  by (simp add: ensureEntry_def)

lemma chainEnter_manager:
  "chainManager (snd (chainEnter f c)) = ensureEntry f (ensureEntry f (chainManager c))"
  by (simp add: chainEnter_def Let_def getDependencies_eq)

lemma applyChain_manager:
  "storedDependencies (chainManager (applyChain f c)) g = storedDependencies (chainManager c) g \<and>
   knownTypeDeclarations (chainManager (applyChain f c)) = knownTypeDeclarations (chainManager c)"
  "storedDependencies (chainManager (applyChainEach ds c)) g = storedDependencies (chainManager c) g \<and>
   knownTypeDeclarations (chainManager (applyChainEach ds c)) = knownTypeDeclarations (chainManager c)"
proof (induction f c and ds c rule: applyChain_applyChainEach.induct)
  case (1 fileName s)
  obtain ds s1 where e: "chainEnter fileName s = (ds, s1)" by (cases "chainEnter fileName s")
  from 1[OF e[symmetric]] chainEnter_manager[of fileName s] e show ?case
    by (simp add: applyChain.simps storedDependencies_ensureEntry)
next
  case (2 s)
  then show ?case by simp
next
  case (3 d rest s)
  then show ?case by (auto simp: Let_def chainAdd_facts)
qed

lemma opaque_applyDeps: "opaque s (snd (applyDeps f calls s))"
  using applyChain_manager(1)[of f "chainStart (manager s) (calls @ [Clear, Add f])"]
  by (simp add: opaque_def applyDeps_def Let_def chainStart_def hasTypeDeclaration_def)

lemma session_enqueue [simp]: "session (enqueue evs a) = session a"
  by (simp add: enqueue_def)

lemma session_settleFrame [simp]: "session (settleFrame j r a) = session a"
  by (simp add: settleFrame_def)

lemma opaque_checkDependencies:
  "\<not> isRequiredModule f \<Longrightarrow> opaque (session a) (session (checkDependencies f p a))"
  by (simp add: checkDependencies_def Let_def opaque_beginCheck)

lemma session_internalAsync [simp]:
  "session (checkDependenciesInternalAsync w j a) = session a"
  by (simp add: checkDependenciesInternalAsync_def split: sum.splits)

lemma opaque_onFlowSettled: "opaque (session a) (session (onFlowSettled w j a))"
  by (auto simp: onFlowSettled_def opaque_refl opaque_same dest!: applyRead_frame split: sum.splits)

lemma opaque_onResolved: "opaque (session a) (session (onResolved w c a))"
proof -
  let ?f = "frameUnit (frames a ! taskFrame (tasks a ! c))"
  show ?thesis
  proof (cases "fst (resolveAsync (pathModule w) (resolver w) ?f (taskSpecifier (tasks a ! c)) [])")
    case (Inl e)
    then show ?thesis by (simp add: onResolved_def Let_def opaque_refl)
  next
    case (Inr d)
    show ?thesis
    proof (cases "isTypeDeclaration d")
      case True
      then have nj: "\<not> isRequiredModule d" using required_not_declaration by blast
      have "opaque (recordDeclaration d (session a))
          (session (checkDependencies d p (a\<lparr>session := recordDeclaration d (session a)\<rparr>)))" for p
        using opaque_checkDependencies[OF nj, of "a\<lparr>session := recordDeclaration d (session a)\<rparr>"]
        by simp
      from opaque_trans[OF opaque_recordDeclaration[OF nj, of "session a"] this]
      show ?thesis using Inr True by (simp add: onResolved_def Let_def opaque_refl)
    next
      case nd: False
      show ?thesis
      proof (cases "isRequiredModule d")
        case True
        with nd Inr show ?thesis by (simp add: onResolved_def Let_def opaque_refl)
      next
        case nj: False
        let ?s1 = "recordDependency ?f d (session a)"
        have o1: "opaque (session a) ?s1" by (rule opaque_recordDependency[OF nj])
        have o2: "opaque ?s1 (markFileValid d ?s1)" by (simp add: opaque_same markFileValid_def)
        have o3: "opaque (markFileValid d ?s1)
            (session (checkDependencies d p (a\<lparr>session := markFileValid d ?s1\<rparr>)))" for p
          using opaque_checkDependencies[OF nj, of "a\<lparr>session := markFileValid d ?s1\<rparr>"] by simp
        from o1 o2 o3 nd nj Inr show ?thesis
          by (auto simp: onResolved_def Let_def intro: opaque_trans)
      qed
    qed
  qed
qed

lemma session_onTaskSettled [simp]: "session (onTaskSettled c r a) = session a"
  by (simp add: onTaskSettled_def Let_def split: FrameStatus.splits option.splits)

lemma opaque_onRootSettled: "opaque (session a) (session (onRootSettled w f r a))"
proof -
  have "session (onRootSettled w f r a) = snd (applyDeps f (accumulator a) (session a))"
    by (simp add: onRootSettled_def Let_def split: prod.splits)
  then show ?thesis by (simp add: opaque_applyDeps)
qed

lemma opaque_onFrameSettled: "opaque (session a) (session (onFrameSettled w j r a))"
  by (auto simp: onFrameSettled_def Let_def opaque_refl opaque_same opaque_onRootSettled
      markFileInvalid_def split: Parent.splits option.splits)

lemma opaque_asyncStep: "opaque (session a) (session (asyncStep w ev a))"
  by (simp add: asyncStep_def opaque_refl opaque_onFlowSettled opaque_onResolved
      opaque_onFrameSettled split: Event.splits)

lemma opaque_asyncRun: "opaque (session a) (session (asyncRun w sched a))"
proof (induction sched arbitrary: a)
  case Nil
  show ?case by (simp add: opaque_refl)
next
  case (Cons i sched)
  show ?case
  proof (cases "i < length (queue a)")
    case True
    let ?a = "a\<lparr>queue := take i (queue a) @ drop (Suc i) (queue a)\<rparr>"
    have "opaque (session a) (session (asyncStep w (queue a ! i) ?a))"
      using opaque_asyncStep[of ?a w "queue a ! i"] by simp
    with Cons[of "asyncStep w (queue a ! i) ?a"] True show ?thesis
      by (auto intro: opaque_trans)
  next
    case False
    with Cons[of a] show ?thesis by simp
  qed
qed

text \<open>
  A session whose store holds the given units at version 0; the world in which the
  service has an empty source file for a unit it has no snapshot of, instead of raising;
  the schedule that always takes the oldest entry of the pool; and three disks.
\<close>

definition loaded :: "(string \<times> string) list \<Rightarrow> State" where
  "loaded units =
     emptySession\<lparr>files := map (\<lambda>(f, t). (f, \<lparr>file_text = t, file_version = 0\<rparr>)) units\<rparr>"

definition lenient :: "World \<Rightarrow> World" where
  "lenient w =
     w\<lparr>importExtractor :=
         (\<lambda>f snapshot. case snapshot of None \<Rightarrow> Inr [] | Some t \<Rightarrow> importExtractor w f snapshot)\<rparr>"

definition fifo :: "nat list" where
  "fifo = replicate 16 0"

definition chainUnits :: "(string \<times> string) list" where
  "chainUnits = [(''/src/main.ts'', ''./b''), (''/src/b.ts'', ''./c''), (''/src/c.ts'', [])]"

definition jsUnits :: "(string \<times> string) list" where
  "jsUnits = [(''/src/main.ts'', ''./lib.js;./b''), (''/src/lib.js'', ''./hidden''),
              (''/src/b.ts'', []), (''/src/hidden.ts'', [])]"

definition missingUnits :: "(string \<times> string) list" where
  "missingUnits = [(''/src/main.ts'', ''./b;./missing''), (''/src/b.ts'', [])]"

section \<open>What a chain application adds\<close>

text \<open>
  The names in \<^verbatim>\<open>appliedDeps\<close>, and the relation between the state before and after a call
  of \<^verbatim>\<open>applyChain\<close> that is made once the declarations have been applied: both visited
  sets have grown, the graph reads the same, the accumulator has received one \<^verbatim>\<open>add\<close> for
  each name that is new in \<^verbatim>\<open>appliedDeps\<close> and no other call, and every unit that is new
  in \<^verbatim>\<open>appliedChains\<close> has all of its dependencies in both sets.
\<close>

definition chainEmitted :: "ChainState \<Rightarrow> string set" where
  "chainEmitted c = {k. hasOwnProperty (appliedDeps c) k}"

definition chainExtends :: "ChainState \<Rightarrow> ChainState \<Rightarrow> bool" where
  "chainExtends c c' =
     (hasOwnProperty (appliedChains c') ''.d.ts'' \<and>
      chainsDone c \<subseteq> chainsDone c' \<and>
      chainEmitted c \<subseteq> chainEmitted c' \<and>
      (\<forall>g. storedDependencies (chainManager c') g = storedDependencies (chainManager c) g) \<and>
      (\<exists>new. chainCalls c' = chainCalls c @ map Add new \<and> distinct new \<and>
             set new = chainEmitted c' - chainEmitted c) \<and>
      (\<forall>g \<in> chainsDone c' - chainsDone c.
         set (storedDependencies (chainManager c) g) \<subseteq> chainEmitted c' \<inter> chainsDone c'))"

lemma chainExtends_refl: "hasOwnProperty (appliedChains c) ''.d.ts'' \<Longrightarrow> chainExtends c c"
  by (simp add: chainExtends_def)

lemma chainExtends_trans:
  assumes "chainExtends c1 c2" and "chainExtends c2 c3"
  shows "chainExtends c1 c3"
proof -
  from assms(1) obtain n1 where n1: "chainCalls c2 = chainCalls c1 @ map Add n1" "distinct n1"
    "set n1 = chainEmitted c2 - chainEmitted c1" by (auto simp: chainExtends_def)
  from assms(2) obtain n2 where n2: "chainCalls c3 = chainCalls c2 @ map Add n2" "distinct n2"
    "set n2 = chainEmitted c3 - chainEmitted c2" by (auto simp: chainExtends_def)
  have m: "chainEmitted c1 \<subseteq> chainEmitted c2" "chainEmitted c2 \<subseteq> chainEmitted c3"
    "chainsDone c1 \<subseteq> chainsDone c2" "chainsDone c2 \<subseteq> chainsDone c3"
    using assms by (auto simp: chainExtends_def)
  have calls: "chainCalls c3 = chainCalls c1 @ map Add (n1 @ n2) \<and> distinct (n1 @ n2) \<and>
      set (n1 @ n2) = chainEmitted c3 - chainEmitted c1"
    using n1 n2 m by auto
  have st: "storedDependencies (chainManager c3) g = storedDependencies (chainManager c1) g"
    "storedDependencies (chainManager c2) g = storedDependencies (chainManager c1) g" for g
    using assms by (auto simp: chainExtends_def)
  have cl: "set (storedDependencies (chainManager c1) g) \<subseteq> chainEmitted c3 \<inter> chainsDone c3"
    if "g \<in> chainsDone c3 - chainsDone c1" for g
  proof (cases "g \<in> chainsDone c2")
    case True
    with that assms(1) have "set (storedDependencies (chainManager c1) g) \<subseteq> chainEmitted c2 \<inter> chainsDone c2"
      by (auto simp: chainExtends_def)
    with m show ?thesis by blast
  next
    case False
    with that assms(2) have "set (storedDependencies (chainManager c2) g) \<subseteq> chainEmitted c3 \<inter> chainsDone c3"
      by (auto simp: chainExtends_def)
    then show ?thesis by (simp add: st)
  qed
  have ex: "\<exists>new. chainCalls c3 = chainCalls c1 @ map Add new \<and> distinct new \<and>
             set new = chainEmitted c3 - chainEmitted c1"
    using calls by (intro exI[of _ "n1 @ n2"]) simp
  have h: "hasOwnProperty (appliedChains c3) ''.d.ts''" using assms(2) by (simp add: chainExtends_def)
  show ?thesis
    unfolding chainExtends_def
    using h m ex st(1) cl by blast
qed

lemma chainExtends_chainAdd:
  assumes "hasOwnProperty (appliedChains c) ''.d.ts''"
  shows "chainExtends c (chainAdd d c)" and "d \<in> chainEmitted (chainAdd d c)"
proof -
  show "d \<in> chainEmitted (chainAdd d c)"
    by (auto simp: chainAdd_def chainEmitted_def hasOwnProperty_def update_conv')
  show "chainExtends c (chainAdd d c)"
  proof (cases "hasOwnProperty (appliedDeps c) d")
    case True
    then show ?thesis using assms by (simp add: chainAdd_def chainExtends_refl)
  next
    case False
    then have f: "chainCalls (chainAdd d c) = chainCalls c @ map Add [d]"
      "chainEmitted (chainAdd d c) = insert d (chainEmitted c)" "d \<notin> chainEmitted c"
      by (auto simp: chainAdd_def chainEmitted_def hasOwnProperty_def update_conv')
    have "distinct [d] \<and> set [d] = chainEmitted (chainAdd d c) - chainEmitted c"
      using f(2,3) by auto
    with f(1) have ex: "\<exists>new. chainCalls (chainAdd d c) = chainCalls c @ map Add new \<and>
        distinct new \<and> set new = chainEmitted (chainAdd d c) - chainEmitted c"
      by blast
    have m: "chainEmitted c \<subseteq> chainEmitted (chainAdd d c)" using f(2) by auto
    have t: "chainsDone (chainAdd d c) = chainsDone c"
      by (simp add: chainsDone_def chainAdd_facts)
    show ?thesis
      unfolding chainExtends_def using assms ex m t by (simp add: chainAdd_facts)
  qed
qed

lemma chainEnter_flagged_eq:
  assumes "hasOwnProperty (appliedChains c) ''.d.ts''"
  shows "chainEnter f c =
     (storedDependencies (chainManager c) f,
      c\<lparr>chainManager := ensureEntry f (ensureEntry f (chainManager c)),
        appliedChains := AList.update f True (appliedChains c)\<rparr>)"
proof -
  have "hasOwnProperty (AList.update f True (appliedChains c)) ''.d.ts''"
    using assms by (auto simp: hasOwnProperty_def update_conv')
  then show ?thesis
    by (simp add: chainEnter_def Let_def getDependencies_eq storedDependencies_ensureEntry)
qed

lemma chainEnter_flagged:
  assumes "hasOwnProperty (appliedChains c) ''.d.ts''" and "chainEnter f c = (ds, c1)"
  shows "ds = storedDependencies (chainManager c) f"
    and "hasOwnProperty (appliedChains c1) ''.d.ts''"
    and "chainsDone c1 = insert f (chainsDone c)"
    and "appliedDeps c1 = appliedDeps c" and "chainCalls c1 = chainCalls c"
    and "storedDependencies (chainManager c1) g = storedDependencies (chainManager c) g"
  using assms(1) assms(2)[unfolded chainEnter_flagged_eq[OF assms(1)]]
  by (auto simp: storedDependencies_ensureEntry hasOwnProperty_def update_conv' chainsDone_def
      truthy_update)

lemma applyChain_closure:
  "hasOwnProperty (appliedChains c) ''.d.ts'' \<Longrightarrow>
     chainExtends c (applyChain f c) \<and> f \<in> chainsDone (applyChain f c) \<and>
     set (storedDependencies (chainManager c) f)
       \<subseteq> chainEmitted (applyChain f c) \<inter> chainsDone (applyChain f c)"
  "hasOwnProperty (appliedChains c) ''.d.ts'' \<Longrightarrow>
     chainExtends c (applyChainEach ds c) \<and>
     set ds \<subseteq> chainEmitted (applyChainEach ds c) \<inter> chainsDone (applyChainEach ds c)"
proof (induction f c and ds c rule: applyChain_applyChainEach.induct)
  case (1 f c)
  obtain ds c1 where e: "chainEnter f c = (ds, c1)" by (cases "chainEnter f c")
  note en = chainEnter_flagged[OF 1(2) e]
  let ?c' = "applyChainEach ds c1"
  have r: "applyChain f c = ?c'" by (simp add: applyChain.simps e)
  from 1(1)[OF e[symmetric] en(2)]
  have ih: "chainExtends c1 ?c'" "set ds \<subseteq> chainEmitted ?c' \<inter> chainsDone ?c'" by simp_all
  have f: "f \<in> chainsDone ?c'" using ih(1) en(3) by (auto simp: chainExtends_def)
  have st: "set (storedDependencies (chainManager c) f) \<subseteq> chainEmitted ?c' \<inter> chainsDone ?c'"
    using ih(2) en(1) by simp
  have "chainExtends c ?c'"
    unfolding chainExtends_def
  proof (intro conjI allI ballI)
    show "hasOwnProperty (appliedChains ?c') ''.d.ts''" using ih(1) by (simp add: chainExtends_def)
    show "chainsDone c \<subseteq> chainsDone ?c'" using ih(1) en(3) by (auto simp: chainExtends_def)
    show "chainEmitted c \<subseteq> chainEmitted ?c'"
      using ih(1) en(4) by (auto simp: chainExtends_def chainEmitted_def)
    show "storedDependencies (chainManager ?c') g = storedDependencies (chainManager c) g" for g
      using ih(1) en(6) by (simp add: chainExtends_def)
    show "\<exists>new. chainCalls ?c' = chainCalls c @ map Add new \<and> distinct new \<and>
             set new = chainEmitted ?c' - chainEmitted c"
      using ih(1) en(4,5) by (simp add: chainExtends_def chainEmitted_def)
    show "set (storedDependencies (chainManager c) g) \<subseteq> chainEmitted ?c' \<inter> chainsDone ?c'"
      if "g \<in> chainsDone ?c' - chainsDone c" for g
    proof (cases "g = f")
      case True
      then show ?thesis using st by simp
    next
      case False
      with that en(3) have "g \<in> chainsDone ?c' - chainsDone c1" by simp
      with ih(1) have "set (storedDependencies (chainManager c1) g) \<subseteq> chainEmitted ?c' \<inter> chainsDone ?c'"
        by (simp add: chainExtends_def)
      then show ?thesis by (simp add: en(6))
    qed
  qed
  with f st r show ?case by simp
next
  case (2 c)
  then show ?case by (simp add: chainExtends_refl)
next
  case (3 d rest c)
  let ?c1 = "chainAdd d c"
  note a = chainExtends_chainAdd[OF 3(4), of d]
  have h1: "hasOwnProperty (appliedChains ?c1) ''.d.ts''" using a(1) by (simp add: chainExtends_def)
  show ?case
  proof (cases "truthy (appliedChains ?c1) d")
    case True
    from 3(3)[OF refl _ h1] True
    have ih: "chainExtends ?c1 (applyChainEach rest ?c1)"
      "set rest \<subseteq> chainEmitted (applyChainEach rest ?c1) \<inter> chainsDone (applyChainEach rest ?c1)"
      by simp_all
    have r: "applyChainEach (d # rest) c = applyChainEach rest ?c1" using True by (simp add: Let_def)
    have "d \<in> chainEmitted (applyChainEach rest ?c1)" "d \<in> chainsDone (applyChainEach rest ?c1)"
      using ih(1) a(2) True by (auto simp: chainExtends_def chainsDone_def)
    with ih chainExtends_trans[OF a(1) ih(1)] r show ?thesis by simp
  next
    case False
    let ?c2 = "applyChain d ?c1"
    from 3(1)[OF refl _ h1] False
    have ih1: "chainExtends ?c1 ?c2" "d \<in> chainsDone ?c2" by simp_all
    have h2: "hasOwnProperty (appliedChains ?c2) ''.d.ts''" using ih1(1) by (simp add: chainExtends_def)
    from 3(2)[OF refl _ h2] False
    have ih2: "chainExtends ?c2 (applyChainEach rest ?c2)"
      "set rest \<subseteq> chainEmitted (applyChainEach rest ?c2) \<inter> chainsDone (applyChainEach rest ?c2)"
      by simp_all
    have r: "applyChainEach (d # rest) c = applyChainEach rest ?c2" using False by (simp add: Let_def)
    have "d \<in> chainEmitted (applyChainEach rest ?c2)" "d \<in> chainsDone (applyChainEach rest ?c2)"
      using ih1 ih2(1) a(2) by (auto simp: chainExtends_def)
    with ih2 chainExtends_trans[OF chainExtends_trans[OF a(1) ih1(1)] ih2(1)] r show ?thesis by simp
  qed
qed

lemma count_list_Add: "count_list (map Add xs) (Add x) = count_list xs x"
  by (induction xs) auto

lemma count_list_distinct: "distinct xs \<Longrightarrow> x \<in> set xs \<Longrightarrow> count_list xs x = 1"
  by (induction xs) (auto simp: count_list_0_iff)

lemma chainEnter_start:
  "chainEnter A (chainStart dm calls) =
     (storedDependencies dm A,
      \<lparr>chainManager = ensureEntry A (ensureEntry A dm),
       chainCalls = (if A = ''.d.ts'' then calls
                     else calls @ map Add (objectKeys (knownTypeDeclarations dm))),
       appliedChains = (if A = ''.d.ts'' then [(A, True)] else [(A, True), (''.d.ts'', True)]),
       appliedDeps = []\<rparr>)"
  by (simp add: chainEnter_def chainStart_def Let_def getDependencies_eq hasOwnProperty_def
      storedDependencies_ensureEntry)

section \<open>The concurrent mode never loads a unit\<close>

text \<open>
  In \<^verbatim>\<open>checkDependencies\<close> the read \<^verbatim>\<open>readFileAndUpdate\<close> is issued
  only for a unit that the store holds already.  So the set of loaded units is the same
  after every run of the concurrent mode, whatever the order in which the promises
  settle; and when the import extractor reports no import for a unit without a snapshot,
  every edge the run records starts at a unit that was loaded before it.
\<close>

definition loadedUnits :: "State \<Rightarrow> string set" where
  "loadedUnits s = {f. map_of (files s) f \<noteq> None}"

definition noImportsWithoutSource :: "World \<Rightarrow> bool" where
  "noImportsWithoutSource w =
     (\<forall>f. case importExtractor w f None of Inl e \<Rightarrow> True | Inr imports \<Rightarrow> imports = [])"

definition readsLoaded :: "string set \<Rightarrow> AsyncState \<Rightarrow> bool" where
  "readsLoaded L a =
     (loadedUnits (session a) = L \<and>
      (\<forall>fr \<in> set (frames a). frameReads fr \<longrightarrow> frameUnit fr \<in> L))"

definition tasksLoaded :: "string set \<Rightarrow> JournalEntry set \<Rightarrow> AsyncState \<Rightarrow> bool" where
  "tasksLoaded L J a =
     ((\<forall>t \<in> set (tasks a). taskFrame t < length (frames a) \<and>
                             frameUnit (frames a ! taskFrame t) \<in> L) \<and>
      (\<forall>f d. EdgeRecorded f d \<in> set (journal (session a)) \<longrightarrow> f \<in> L \<or> EdgeRecorded f d \<in> J))"

lemma loadedUnits_updateFile:
  "map_of fs f \<noteq> None \<Longrightarrow> (map_of (snd (updateFile f t c fs)) g = None) = (map_of fs g = None)"
  by (auto simp: updateFile_def Let_def update_conv' split: prod.splits)

lemma loadedUnits_applyRead:
  assumes "applyRead w f c s = Inr s'" and "f \<in> loadedUnits s"
  shows "loadedUnits s' = loadedUnits s"
proof -
  from assms(1) obtain t where "s' = s\<lparr>files := snd (updateFile f t c (files s))\<rparr>"
    by (auto simp: applyRead_def split: sum.splits)
  with assms(2) show ?thesis by (simp add: loadedUnits_def loadedUnits_updateFile)
qed

lemma frames_settleFrame:
  "j < length (frames a) \<Longrightarrow>
     map frameUnit (frames (settleFrame j r a)) = map frameUnit (frames a) \<and>
     map frameReads (frames (settleFrame j r a)) = map frameReads (frames a)"
  by (simp add: settleFrame_def enqueue_def map_update list_update_same_conv)


lemma readsLoaded_settleFrame:
  "j < length (frames a) \<Longrightarrow> readsLoaded L a \<Longrightarrow> readsLoaded L (settleFrame j r a)"
  unfolding readsLoaded_def
  by (auto simp: settleFrame_def enqueue_def set_conv_nth nth_list_update)

lemma readsLoaded_enqueue [simp]: "readsLoaded L (enqueue evs a) = readsLoaded L a"
  by (simp add: readsLoaded_def enqueue_def)

lemma readsLoaded_checkDependencies:
  assumes "readsLoaded L a"
    and "loadedUnits (session a') = loadedUnits (session a)" and "frames a' = frames a"
  shows "readsLoaded L (checkDependencies f p a')"
  using assms
  by (auto simp: readsLoaded_def checkDependencies_def Let_def enqueue_def beginCheck_def
      loadedUnits_def)

lemma readsLoaded_internal:
  "j < length (frames a) \<Longrightarrow> readsLoaded L a \<Longrightarrow> readsLoaded L (checkDependenciesInternalAsync w j a)"
  unfolding checkDependenciesInternalAsync_def
  by (auto simp: readsLoaded_settleFrame split: sum.splits)
    (auto simp: readsLoaded_def enqueue_def set_conv_nth nth_list_update)

lemma readsLoaded_onFlowSettled:
  assumes "j < length (frames a)" and "readsLoaded L a"
  shows "readsLoaded L (onFlowSettled w j a)"
proof (cases "frameReads (frames a ! j)")
  case False
  with assms show ?thesis by (simp add: onFlowSettled_def readsLoaded_internal)
next
  case True
  with assms have u: "frameUnit (frames a ! j) \<in> loadedUnits (session a)"
    by (auto simp: readsLoaded_def)
  show ?thesis
  proof (cases "applyRead w (frameUnit (frames a ! j)) False (session a)")
    case (Inl e)
    with True assms show ?thesis by (simp add: onFlowSettled_def readsLoaded_settleFrame)
  next
    case (Inr s1)
    from loadedUnits_applyRead[OF Inr u] assms(2) have "readsLoaded L (a\<lparr>session := s1\<rparr>)"
      by (simp add: readsLoaded_def)
    from readsLoaded_internal[OF _ this, of j w] assms(1) True Inr show ?thesis
      by (simp add: onFlowSettled_def)
  qed
qed

lemma loadedUnits_frame [simp]:
  "loadedUnits (recordDeclaration d s) = loadedUnits s"
  "loadedUnits (recordDependency f d s) = loadedUnits s"
  "loadedUnits (markFileValid d s) = loadedUnits s"
  "loadedUnits (markFileInvalid d s) = loadedUnits s"
  by (simp_all add: loadedUnits_def recordDeclaration_def recordDependency_def markFileValid_def
      markFileInvalid_def)

lemma readsLoaded_session:
  "readsLoaded L a \<Longrightarrow> loadedUnits s' = loadedUnits (session a) \<Longrightarrow> readsLoaded L (a\<lparr>session := s'\<rparr>)"
  by (simp add: readsLoaded_def)

lemma readsLoaded_onResolved: "readsLoaded L a \<Longrightarrow> readsLoaded L (onResolved w c a)"
  unfolding onResolved_def Let_def
  by (auto simp: readsLoaded_session intro!: readsLoaded_checkDependencies split: sum.splits)

lemma readsLoaded_onTaskSettled:
  "taskFrame (tasks a ! c) < length (frames a) \<Longrightarrow> readsLoaded L a \<Longrightarrow> readsLoaded L (onTaskSettled c r a)"
  unfolding onTaskSettled_def Let_def
  by (auto simp: readsLoaded_settleFrame split: FrameStatus.splits option.splits)
    (auto simp: readsLoaded_def set_conv_nth nth_list_update)

lemma loadedUnits_applyDeps [simp]: "loadedUnits (snd (applyDeps f calls s)) = loadedUnits s"
  by (simp add: applyDeps_def Let_def loadedUnits_def)

lemma onRootSettled_frame:
  "session (onRootSettled w f r a) = snd (applyDeps f (accumulator a) (session a))"
  "frames (onRootSettled w f r a) = frames a" "tasks (onRootSettled w f r a) = tasks a"
  by (simp_all add: onRootSettled_def Let_def split: prod.splits)

lemma readsLoaded_onRootSettled: "readsLoaded L a \<Longrightarrow> readsLoaded L (onRootSettled w f r a)"
  by (simp add: readsLoaded_def onRootSettled_frame)

lemma readsLoaded_onFrameSettled: "readsLoaded L a \<Longrightarrow> readsLoaded L (onFrameSettled w j r a)"
  unfolding onFrameSettled_def Let_def
  by (auto simp: readsLoaded_session readsLoaded_onRootSettled split: Parent.splits option.splits)

lemma readsLoaded_asyncStep: "readsLoaded L a \<Longrightarrow> readsLoaded L (asyncStep w ev a)"
  by (simp add: asyncStep_def readsLoaded_onFlowSettled readsLoaded_onResolved
      readsLoaded_onTaskSettled readsLoaded_onFrameSettled split: Event.splits)

lemma readsLoaded_asyncRun: "readsLoaded L a \<Longrightarrow> readsLoaded L (asyncRun w sched a)"
proof (induction sched arbitrary: a)
  case Nil
  then show ?case by simp
next
  case (Cons i sched)
  have "readsLoaded L (a\<lparr>queue := q\<rparr>)" for q using Cons(2) by (simp add: readsLoaded_def)
  with Cons show ?case by (simp add: readsLoaded_asyncStep)
qed


lemma frameUnit_status_update:
  "frameUnit ((fs[j := (fs ! j)\<lparr>frameStatus := st\<rparr>]) ! k) = frameUnit (fs ! k)"
  by (cases "j < length fs") (auto simp: nth_list_update list_update_beyond)

lemma tasksLoaded_settleFrame:
  "tasksLoaded L J a \<Longrightarrow> tasksLoaded L J (settleFrame j r a)"
  by (simp add: tasksLoaded_def settleFrame_def enqueue_def frameUnit_status_update)

lemma tasksLoaded_enqueue [simp]: "tasksLoaded L J (enqueue evs a) = tasksLoaded L J a"
  by (simp add: tasksLoaded_def enqueue_def)

lemma tasksLoaded_checkDependencies:
  assumes "tasksLoaded L J a"
  shows "tasksLoaded L J (checkDependencies f p a)"
  using assms
  by (auto simp: tasksLoaded_def checkDependencies_def Let_def enqueue_def beginCheck_def
      nth_append)

lemma tasksLoaded_internal:
  assumes "noImportsWithoutSource w" and "j < length (frames a)" and "loadedUnits (session a) = L"
    and "tasksLoaded L J a"
  shows "tasksLoaded L J (checkDependenciesInternalAsync w j a)"
proof (cases "findImportDeclarations w (session a) (frameUnit (frames a ! j))")
  case (Inl e)
  with assms(4) show ?thesis
    by (simp add: checkDependenciesInternalAsync_def tasksLoaded_settleFrame)
next
  case (Inr imps)
  show ?thesis
  proof (cases "imps = []")
    case True
    with Inr assms(4) show ?thesis
      by (simp add: checkDependenciesInternalAsync_def tasksLoaded_settleFrame)
  next
    case False
    have "getScriptSnapshot (session a) (frameUnit (frames a ! j)) \<noteq> None"
    proof
      assume "getScriptSnapshot (session a) (frameUnit (frames a ! j)) = None"
      with Inr have "importExtractor w (frameUnit (frames a ! j)) None = Inr imps"
        by (simp add: findImportDeclarations_def)
      with assms(1) False show False
        by (auto simp: noImportsWithoutSource_def split: sum.splits dest!: spec[of _ "frameUnit (frames a ! j)"])
    qed
    then have u: "frameUnit (frames a ! j) \<in> L"
      using assms(3) by (auto simp: getScriptSnapshot_def loadedUnits_def)
    from Inr False assms(2,4) u show ?thesis
      by (auto simp: checkDependenciesInternalAsync_def tasksLoaded_def enqueue_def
          frameUnit_status_update)
  qed
qed

lemma journal_applyRead: "applyRead w f c s = Inr s' \<Longrightarrow> journal s' = journal s"
  by (auto simp: applyRead_def split: sum.splits)

lemma tasksLoaded_session:
  "tasksLoaded L J a \<Longrightarrow> journal s' = journal (session a) \<Longrightarrow> tasksLoaded L J (a\<lparr>session := s'\<rparr>)"
  by (simp add: tasksLoaded_def)

lemma asyncLoaded_onFlowSettled:
  assumes "noImportsWithoutSource w" and "j < length (frames a)"
    and "readsLoaded L a" and "tasksLoaded L J a"
  shows "tasksLoaded L J (onFlowSettled w j a)"
proof (cases "frameReads (frames a ! j)")
  case False
  with assms show ?thesis
    by (simp add: onFlowSettled_def tasksLoaded_internal readsLoaded_def)
next
  case True
  with assms have u: "frameUnit (frames a ! j) \<in> loadedUnits (session a)"
    by (auto simp: readsLoaded_def)
  show ?thesis
  proof (cases "applyRead w (frameUnit (frames a ! j)) False (session a)")
    case (Inl e)
    with True assms show ?thesis by (simp add: onFlowSettled_def tasksLoaded_settleFrame)
  next
    case (Inr s1)
    have l: "loadedUnits (session (a\<lparr>session := s1\<rparr>)) = L"
      using loadedUnits_applyRead[OF Inr u] assms(3) by (simp add: readsLoaded_def)
    have t: "tasksLoaded L J (a\<lparr>session := s1\<rparr>)"
      using tasksLoaded_session[OF assms(4) journal_applyRead[OF Inr]] .
    from tasksLoaded_internal[OF assms(1) _ l t, of j] assms(2) True Inr show ?thesis
      by (simp add: onFlowSettled_def)
  qed
qed

lemma tasksLoaded_recordDependency:
  "tasksLoaded L J a \<Longrightarrow> f \<in> L \<Longrightarrow> tasksLoaded L J (a\<lparr>session := recordDependency f d (session a)\<rparr>)"
  by (auto simp: tasksLoaded_def recordDependency_def)

lemma asyncLoaded_onResolved:
  assumes "c < length (tasks a)" and "tasksLoaded L J a"
  shows "tasksLoaded L J (onResolved w c a)"
proof -
  let ?f = "frameUnit (frames a ! taskFrame (tasks a ! c))"
  have f: "?f \<in> L" using assms by (auto simp: tasksLoaded_def)
  have d: "tasksLoaded L J (a\<lparr>session := recordDeclaration d (session a)\<rparr>)" for d
    using assms(2) by (auto simp: tasksLoaded_def recordDeclaration_def)
  have e: "tasksLoaded L J (a\<lparr>session := recordDependency ?f d (session a)\<rparr>)" for d
    using tasksLoaded_recordDependency[OF assms(2) f] .
  have v: "tasksLoaded L J (a\<lparr>session := markFileValid d (recordDependency ?f d (session a))\<rparr>)" for d
    using e[of d] by (simp add: tasksLoaded_def markFileValid_def)
  show ?thesis
    unfolding onResolved_def Let_def
    using assms(2) d e v by (auto simp: tasksLoaded_checkDependencies split: sum.splits)
qed

lemma tasksLoaded_onTaskSettled: "tasksLoaded L J a \<Longrightarrow> tasksLoaded L J (onTaskSettled c r a)"
  unfolding onTaskSettled_def Let_def
  by (auto simp: tasksLoaded_settleFrame split: FrameStatus.splits option.splits)
    (auto simp: tasksLoaded_def frameUnit_status_update)

lemma journal_applyDeps [simp]: "journal (snd (applyDeps f calls s)) = journal s"
  by (simp add: applyDeps_def Let_def)

lemma tasksLoaded_onFrameSettled: "tasksLoaded L J a \<Longrightarrow> tasksLoaded L J (onFrameSettled w j r a)"
  unfolding onFrameSettled_def Let_def
  by (auto simp: tasksLoaded_def onRootSettled_frame markFileInvalid_def enqueue_def
      split: Parent.splits option.splits)

lemma asyncLoaded_asyncStep:
  assumes "noImportsWithoutSource w" and "readsLoaded L a" and "tasksLoaded L J a"
  shows "tasksLoaded L J (asyncStep w ev a)"
  using assms
  by (simp add: asyncStep_def asyncLoaded_onFlowSettled asyncLoaded_onResolved
      tasksLoaded_onTaskSettled tasksLoaded_onFrameSettled split: Event.splits)

lemma asyncLoaded_asyncRun:
  assumes "noImportsWithoutSource w"
  shows "readsLoaded L a \<Longrightarrow> tasksLoaded L J a \<Longrightarrow> tasksLoaded L J (asyncRun w sched a)"
proof (induction sched arbitrary: a)
  case Nil
  then show ?case by simp
next
  case (Cons i sched)
  have q: "readsLoaded L (a\<lparr>queue := q\<rparr>)" "tasksLoaded L J (a\<lparr>queue := q\<rparr>)" for q
    using Cons(2,3) by (simp_all add: readsLoaded_def tasksLoaded_def)
  show ?case
    using Cons(1)[OF readsLoaded_asyncStep[OF q(1)] asyncLoaded_asyncStep[OF assms q]] Cons(2,3)
      Cons(1)[OF Cons(2,3)]
    by simp
qed

lemma concurrent_mode_loads_nothing:
  "(\<forall>sched. loadedUnits (session (asyncRun w sched (emitAsync w fileName txt depsManager s)))
       = loadedUnits s) \<and>
   (noImportsWithoutSource w \<longrightarrow>
      (\<forall>sched f d. EdgeRecorded f d
           \<in> set (journal (session (asyncRun w sched (emitAsync w fileName txt depsManager s))))
          \<longrightarrow> f \<in> loadedUnits s \<or> EdgeRecorded f d \<in> set (journal s)))"
proof -
  let ?a = "emitAsync w fileName txt depsManager s"
  have r: "readsLoaded (loadedUnits s) ?a"
    by (auto simp: emitAsync_def checkDependencies_def Let_def enqueue_def readsLoaded_def
        loadedUnits_def beginCheck_def invokeRuntime_def)
  have t: "tasksLoaded (loadedUnits s) (set (journal s)) ?a"
    by (auto simp: emitAsync_def checkDependencies_def Let_def enqueue_def tasksLoaded_def
        beginCheck_def invokeRuntime_def)
  from readsLoaded_asyncRun[OF r] asyncLoaded_asyncRun[OF _ r t] show ?thesis
    by (auto simp: readsLoaded_def tasksLoaded_def)
qed

section \<open>Example data\<close>

text \<open>A graph with the cycle \<^verbatim>\<open>/a.ts\<close> \<open>\<rightarrow>\<close> \<^verbatim>\<open>/b.ts\<close> \<open>\<rightarrow>\<close> \<^verbatim>\<open>/a.ts\<close>, a third unit and one known declaration.\<close>

definition cycleGraph :: DependencyManager where
  "cycleGraph = \<lparr>dependencies = [(''/a.ts'', [''/x.ts'', ''/b.ts'']), (''/b.ts'', [''/a.ts'', ''/x.ts''])],
                  knownTypeDeclarations = [(''/lib.d.ts'', True)]\<rparr>"





text \<open>A store of two units.\<close>

definition exampleFiles :: "File jsobj" where
  "exampleFiles = [(''/a.ts'', \<lparr>file_text = ''import b = require(./b)'', file_version = 0\<rparr>),
                   (''/b.ts'', \<lparr>file_text = ''export = 1'', file_version = 0\<rparr>)]"

section \<open>Claims\<close>

subsection \<open>C1: the two modes on a unit that is not loaded yet\<close>

text \<open>
  C1 fails on the code.  \<^verbatim>\<open>checkDependenciesSync\<close> reads a unit that is not in the store,
  \<^verbatim>\<open>checkDependencies\<close> reads a unit that is in the store and no other.  With \<^verbatim>\<open>main.ts\<close>
  in the store and \<^verbatim>\<open>b.ts\<close>, \<^verbatim>\<open>c.ts\<close> on the disk only, where \<^verbatim>\<open>main\<close> imports \<^verbatim>\<open>b\<close> and
  \<^verbatim>\<open>b\<close> imports \<^verbatim>\<open>c\<close>: the sequential pass ends with the three lists; the concurrent run
  ends (its pool is empty) with an empty list for \<^verbatim>\<open>b.ts\<close> and none for \<^verbatim>\<open>c.ts\<close>, whether
  the service raises for the missing source or takes it to be empty.  The order of the
  promises plays no part: by \<^verbatim>\<open>concurrent_mode_loads_nothing\<close> no schedule of the
  concurrent mode adds a unit to the store.
\<close>

theorem modes_diverge_on_unloaded_unit:
  "map_option (dependencies \<circ> manager \<circ> snd)
       (checkDependenciesSync (diskWorld chainUnits) 5 ''/src/main.ts'' (loaded (take 1 chainUnits))) =
     Some [(''/src/main.ts'', [''/src/b.ts'']), (''/src/b.ts'', [''/src/c.ts'']), (''/src/c.ts'', [])] \<and>
   dependencies (manager (session (asyncRun (diskWorld chainUnits) fifo
       (emitAsync (diskWorld chainUnits) ''/src/main.ts'' [] [] (loaded (take 1 chainUnits)))))) =
     [(''/src/main.ts'', [''/src/b.ts'']), (''/src/b.ts'', [])] \<and>
   queue (asyncRun (diskWorld chainUnits) fifo
       (emitAsync (diskWorld chainUnits) ''/src/main.ts'' [] [] (loaded (take 1 chainUnits)))) = [] \<and>
   dependencies (manager (session (asyncRun (lenient (diskWorld chainUnits)) fifo
       (emitAsync (lenient (diskWorld chainUnits)) ''/src/main.ts'' [] [] (loaded (take 1 chainUnits)))))) =
     [(''/src/main.ts'', [''/src/b.ts'']), (''/src/b.ts'', [])] \<and>
   queue (asyncRun (lenient (diskWorld chainUnits)) fifo
       (emitAsync (lenient (diskWorld chainUnits)) ''/src/main.ts'' [] [] (loaded (take 1 chainUnits)))) = []"
  by code_simp

subsection \<open>C2: the accumulator when the resolution fails\<close>

text \<open>
  C2 fails on the code.  In \<^verbatim>\<open>emitSync\<close> the call of \<^verbatim>\<open>checkDependenciesSync\<close> stands before
  the \<^verbatim>\<open>try\<close>, so a resolution failure leaves \<^verbatim>\<open>emitSync\<close> without \<^verbatim>\<open>applyDeps\<close>: with an
  import that cannot be resolved the accumulator has received no call, while \<^verbatim>\<open>emitAsync\<close>
  on the same input has cleared and repopulated it.
\<close>

theorem emitSync_failure_skips_applyDeps:
  "map_option (\<lambda>r. (fst r, fst (snd r)))
       (emitSync (diskWorld missingUnits) 5 ''/src/main.ts'' [] [Add ''/stale.ts''] (loaded missingUnits)) =
     Some (Inl (detailedError ''/src/main.ts'' (ResolverError True ''Cannot resolve module ./missing'')),
           [Add ''/stale.ts'']) \<and>
   accumulator (asyncRun (diskWorld missingUnits) fifo
       (emitAsync (diskWorld missingUnits) ''/src/main.ts'' [] [Add ''/stale.ts''] (loaded missingUnits))) =
     [Add ''/stale.ts'', Clear, Add ''/src/main.ts'', Add ''/src/b.ts'']"
  by code_simp

subsection \<open>C3: versions under \<^verbatim>\<open>updateFile\<close>\<close>




subsection \<open>C4: the validity flag after a successful resolution\<close>

text \<open>
  C4 fails on the code.  The sequential mode resets the flag in a \<^verbatim>\<open>finally\<close>, that is
  after a successful resolution too: the pass below ends without an exception and leaves
  the flags of both dependencies \<^verbatim>\<open>false\<close>.  The concurrent mode resets it in
  \<^verbatim>\<open>.catch(ResolutionError, ...)\<close> only, and leaves them \<^verbatim>\<open>true\<close>.
\<close>

theorem sync_validity_reset_after_success:
  "map_option (\<lambda>r. (fst r, validFiles (snd r)))
       (checkDependenciesSync (diskWorld chainUnits) 5 ''/src/main.ts'' (loaded chainUnits)) =
     Some (None, [(''/src/b.ts'', False), (''/src/c.ts'', False)]) \<and>
   validFiles (session (asyncRun (diskWorld chainUnits) fifo
       (emitAsync (diskWorld chainUnits) ''/src/main.ts'' [] [] (loaded chainUnits)))) =
     [(''/src/b.ts'', True), (''/src/c.ts'', True)]"
  by code_simp

subsection \<open>C5: the order of the resolver invocations\<close>




subsection \<open>C6: a cycle of two units\<close>

text \<open>
  C6 as stated fails, in three ways, each on a graph that is the cycle \<open>A \<rightarrow> B \<rightarrow> A\<close> and
  nothing else.  \<^verbatim>\<open>applyChain\<close> adds the keys of the declaration registry before it looks
  at any list and does not enter them in \<^verbatim>\<open>appliedDeps\<close>, so a \<open>B\<close> that is registered is
  added twice.  It keeps the flag for that step under the key \<^verbatim>\<open>".d.ts"\<close> of
  \<^verbatim>\<open>appliedChains\<close>, so a \<open>B\<close> of that name counts as applied, is not expanded, and \<open>A\<close>
  is never added.  And it decides whether to expand by \<^verbatim>\<open>!appliedChains[depFileName]\<close>,
  a read that finds the members of \<^verbatim>\<open>Object.prototype\<close>, so a \<open>B\<close> named \<^verbatim>\<open>constructor\<close>
  is not expanded either and \<open>A\<close> is never added.
\<close>

theorem cycle_counterexample:
  "count_list (chainCalls (applyChain ''/a.ts'' (chainStart
       \<lparr>dependencies = [(''/a.ts'', [''/b.d.ts'']), (''/b.d.ts'', [''/a.ts''])],
        knownTypeDeclarations = [(''/b.d.ts'', True)]\<rparr> []))) (Add ''/b.d.ts'') = 2 \<and>
   count_list (chainCalls (applyChain ''/a.ts'' (chainStart
       \<lparr>dependencies = [(''/a.ts'', [''.d.ts'']), (''.d.ts'', [''/a.ts''])],
        knownTypeDeclarations = []\<rparr> []))) (Add ''/a.ts'') = 0 \<and>
   count_list (chainCalls (applyChain ''/a.ts'' (chainStart
       \<lparr>dependencies = [(''/a.ts'', [''constructor'']), (''constructor'', [''/a.ts''])],
        knownTypeDeclarations = []\<rparr> []))) (Add ''/a.ts'') = 0"
  by code_simp

text \<open>
  C6, amended.  Let \<open>B\<close> be in the list stored for \<open>A\<close> and \<open>A\<close> in the list stored for \<open>B\<close>, in
  any graph, with \<open>B\<close> neither the key \<^verbatim>\<open>".d.ts"\<close> nor the name of a member of
  \<^verbatim>\<open>Object.prototype\<close>, and neither \<open>A\<close> nor \<open>B\<close> in the declaration registry; and let every
  unit name of the graph be a plain key, so that the association lists are the objects the
  code builds.  Then the recursion of \<^verbatim>\<open>applyChain(A, deps)\<close> is well-founded (the call
  terminates: its argument is in the accessible part of the call relation) and it calls
  \<^verbatim>\<open>deps.add\<close> exactly once with \<open>A\<close> and exactly once with \<open>B\<close>; and the recursion of
  \<^verbatim>\<open>recompileReasonInternal\<close> from \<open>A\<close> is well-founded as well, for every set of changed
  files.
\<close>

theorem cycle_safety:
  assumes "B \<in> set (storedDependencies dm A)" and "A \<in> set (storedDependencies dm B)"
    and "B \<noteq> ''.d.ts''" and "\<not> inheritedName B"
    and "\<not> hasTypeDeclaration dm A" and "\<not> hasTypeDeclaration dm B"
    and "\<forall>n \<in> graphNames dm. plainKey n"
  shows "applyChain_applyChainEach_dom (Inl (A, chainStart dm [])) \<and>
         count_list (chainCalls (applyChain A (chainStart dm []))) (Add A) = 1 \<and>
         count_list (chainCalls (applyChain A (chainStart dm []))) (Add B) = 1 \<and>
         recompileReasonInternal_recompileReasonEach_dom (Inl (A, changedFilesSet, visitedFiles, dm))"
proof -
  define c1 where "c1 = snd (chainEnter A (chainStart dm []))"
  define c' where "c' = applyChainEach (storedDependencies dm A) c1"
  have r: "applyChain A (chainStart dm []) = c'"
    by (simp add: applyChain.simps c'_def c1_def chainEnter_start)
  have c1: "hasOwnProperty (appliedChains c1) ''.d.ts''"
    "chainsDone c1 = {A, ''.d.ts''} \<union> {k. inheritedName k}"
    "chainEmitted c1 = {}"
    "chainCalls c1 = (if A = ''.d.ts'' then [] else map Add (objectKeys (knownTypeDeclarations dm)))"
    "\<And>g. storedDependencies (chainManager c1) g = storedDependencies dm g"
    by (auto simp: c1_def chainEnter_start hasOwnProperty_def chainsDone_def truthy_def
        chainEmitted_def storedDependencies_ensureEntry)
  from applyChain_closure(2)[OF c1(1), of "storedDependencies dm A"]
  have ext: "chainExtends c1 c'" and ds: "set (storedDependencies dm A) \<subseteq> chainEmitted c' \<inter> chainsDone c'"
    by (simp_all add: c'_def)
  from ext obtain new where new: "chainCalls c' = chainCalls c1 @ map Add new" "distinct new"
    "set new = chainEmitted c'"
    by (auto simp: chainExtends_def c1(3))
  have closed: "set (storedDependencies dm g) \<subseteq> chainEmitted c'"
    if "g \<in> chainsDone c'" "g \<noteq> A" "g \<noteq> ''.d.ts''" "\<not> inheritedName g" for g
    using ext that by (auto simp: chainExtends_def c1(2,5))
  have b: "B \<in> chainEmitted c'" "B \<in> chainsDone c'" using ds assms(1) by auto
  have a: "A \<in> chainEmitted c'"
  proof (cases "B = A")
    case True
    with b show ?thesis by simp
  next
    case False
    from closed[OF b(2) False assms(3,4)] assms(2) show ?thesis by auto
  qed
  have k: "count_list (chainCalls c1) (Add A) = 0" "count_list (chainCalls c1) (Add B) = 0"
    using assms(5,6)
    by (auto simp: c1(4) count_list_0_iff hasTypeDeclaration_def hasOwnProperty_def objectKeys_def
        map_of_eq_None_iff)
  have "count_list (chainCalls c') (Add A) = 1" "count_list (chainCalls c') (Add B) = 1"
    using new a b(1) k by (simp_all add: count_list_Add count_list_distinct)
  with r applyChain_terminates recompileReason_terminates show ?thesis by auto
qed

theorem cycle_safety_witness:
  "count_list (chainCalls (applyChain ''/a.ts'' (chainStart cycleGraph []))) (Add ''/a.ts'') = 1 \<and>
   count_list (chainCalls (applyChain ''/a.ts'' (chainStart cycleGraph []))) (Add ''/b.ts'') = 1 \<and>
   chainCalls (applyChain ''/a.ts'' (chainStart cycleGraph [])) =
     [Add ''/lib.d.ts'', Add ''/x.ts'', Add ''/b.ts'', Add ''/a.ts'']"
proof -
  have g: "''/b.ts'' \<in> set (storedDependencies cycleGraph ''/a.ts'')"
    "''/a.ts'' \<in> set (storedDependencies cycleGraph ''/b.ts'')"
    "''/b.ts'' \<noteq> ''.d.ts''" "\<not> inheritedName ''/b.ts''"
    "\<not> hasTypeDeclaration cycleGraph ''/a.ts''" "\<not> hasTypeDeclaration cycleGraph ''/b.ts''"
    "\<forall>n \<in> graphNames cycleGraph. plainKey n"
    by (simp_all add: storedDependencies_def cycleGraph_def hasTypeDeclaration_def hasOwnProperty_def
        graphNames_def depNames_def objectKeys_def inheritedName_def objectPrototypeNames_def
        plainKey_def)
  have c: "chainCalls (applyChain ''/a.ts'' (chainStart cycleGraph [])) =
     [Add ''/lib.d.ts'', Add ''/x.ts'', Add ''/b.ts'', Add ''/a.ts'']"
    by code_simp
  from cycle_safety[OF g] c show ?thesis by simp
qed

subsection \<open>C7: the outcome of \<^verbatim>\<open>emitAndCheck\<close>\<close>

text \<open>
  C7.  \<^verbatim>\<open>emitAndCheck\<close> fails with a \<^verbatim>\<open>TypeScriptCompilationError\<close> exactly when the
  configuration diagnostics or the syntactic or semantic diagnostics of some unit of the
  store are not empty, and the error then carries all of them; when there is no diagnostic
  it fails with the emission failure exactly when the service reported the emission as
  skipped, and returns the emitted output otherwise.
\<close>

theorem emitAndCheck_outcome:
  "((\<exists>ds. emitAndCheck svc store fileName = Inl (TypeScriptCompilationError ds)) =
      (getCompilerOptionsDiagnostics svc \<noteq> [] \<or>
       (\<exists>f \<in> set (objectKeys store).
          getSyntacticDiagnostics svc f \<noteq> [] \<or> getSemanticDiagnostics svc f \<noteq> []))) \<and>
   (\<forall>ds. emitAndCheck svc store fileName = Inl (TypeScriptCompilationError ds)
      \<longrightarrow> ds = allDiagnostics svc store) \<and>
   (allDiagnostics svc store = [] \<longrightarrow>
      ((emitAndCheck svc store fileName = Inl EmitSkippedError) =
         emitSkipped (getEmitOutput svc fileName)) \<and>
      (\<not> emitSkipped (getEmitOutput svc fileName) \<longrightarrow>
         emitAndCheck svc store fileName = Inr (getEmitOutput svc fileName)))"
  by (auto simp: emitAndCheck_eq allDiagnostics_def)

theorem emitAndCheck_outcome_witness:
  "(\<exists>ds. emitAndCheck (exampleService [\<lparr>diagnosticFile = ''/b.ts'', diagnosticCode = 2322, messageText = ''Type mismatch''\<rparr>] False)
           exampleFiles ''/a.ts'' = Inl (TypeScriptCompilationError ds)) \<and>
   emitAndCheck (exampleService [] True) exampleFiles ''/a.ts'' = Inl EmitSkippedError \<and>
   emitAndCheck (exampleService [] False) exampleFiles ''/a.ts'' =
     Inr \<lparr>outputFiles = [(''/a.ts.js'', ''var b = 1;'')], emitSkipped = False\<rparr>"
  using emitAndCheck_outcome[of "exampleService [\<lparr>diagnosticFile = ''/b.ts'', diagnosticCode = 2322, messageText = ''Type mismatch''\<rparr>] False" exampleFiles "''/a.ts''"]
    emitAndCheck_outcome[of "exampleService [] True" exampleFiles "''/a.ts''"]
    emitAndCheck_outcome[of "exampleService [] False" exampleFiles "''/a.ts''"]
  by (simp add: exampleService_def exampleFiles_def allDiagnostics_def objectKeys_def)

subsection \<open>C8: the recompile reason on a chain, and without a path\<close>



subsection \<open>C9: imports that resolve to a compiled module\<close>

text \<open>
  C9.  In the sequential mode (whatever the fuel and the result) and in the concurrent mode
  (whatever the schedule), between the entry into the resolution of the first unit and any
  later state: every journal entry added (a recorded edge, a recorded declaration, the
  start of a recursive resolution) is about a path that does not end in \<^verbatim>\<open>.js\<close>; every
  path ending in \<^verbatim>\<open>.js\<close> in a list of the graph was in that list before; and every such path
  in the registry was in it before.
\<close>

theorem compiled_module_opacity:
  "(\<forall>fuel r s'. checkDependenciesSync w fuel fileName s = Some (r, s')
       \<longrightarrow> opaque (beginCheck fileName s) s') \<and>
   (\<forall>sched. opaque (beginCheck fileName (invokeRuntime s))
       (session (asyncRun w sched (emitAsync w fileName txt depsManager s))))"
proof -
  have "session (emitAsync w fileName txt depsManager s) = beginCheck fileName (invokeRuntime s)"
    by (simp add: emitAsync_def checkDependencies_def Let_def)
  with opaque_asyncRun[of "emitAsync w fileName txt depsManager s" w] opaque_sync(1)[of w _ fileName s]
  show ?thesis by auto
qed

theorem compiled_module_opacity_witness:
  "checkDependenciesSync (diskWorld jsUnits) 5 ''/src/main.ts'' (loaded jsUnits) =
     Some (None, (loaded jsUnits)
       \<lparr>manager := \<lparr>dependencies = [(''/src/main.ts'', [''/src/b.ts'']), (''/src/b.ts'', [])],
                     knownTypeDeclarations = []\<rparr>,
        validFiles := [(''/src/b.ts'', False)],
        journal := [Checked ''/src/main.ts'', EdgeRecorded ''/src/main.ts'' ''/src/b.ts'',
                    Checked ''/src/b.ts'']\<rparr>) \<and>
   opaque (beginCheck ''/src/main.ts'' (loaded jsUnits))
     ((loaded jsUnits)
       \<lparr>manager := \<lparr>dependencies = [(''/src/main.ts'', [''/src/b.ts'']), (''/src/b.ts'', [])],
                     knownTypeDeclarations = []\<rparr>,
        validFiles := [(''/src/b.ts'', False)],
        journal := [Checked ''/src/main.ts'', EdgeRecorded ''/src/main.ts'' ''/src/b.ts'',
                    Checked ''/src/b.ts'']\<rparr>) \<and>
   journal (session (asyncRun (diskWorld jsUnits) fifo
       (emitAsync (diskWorld jsUnits) ''/src/main.ts'' [] [] (loaded jsUnits)))) =
     [Checked ''/src/main.ts'', EdgeRecorded ''/src/main.ts'' ''/src/b.ts'', Checked ''/src/b.ts''] \<and>
   opaque (beginCheck ''/src/main.ts'' (invokeRuntime (loaded jsUnits)))
     (session (asyncRun (diskWorld jsUnits) fifo
       (emitAsync (diskWorld jsUnits) ''/src/main.ts'' [] [] (loaded jsUnits))))"
proof -
  have e: "checkDependenciesSync (diskWorld jsUnits) 5 ''/src/main.ts'' (loaded jsUnits) =
     Some (None, (loaded jsUnits)
       \<lparr>manager := \<lparr>dependencies = [(''/src/main.ts'', [''/src/b.ts'']), (''/src/b.ts'', [])],
                     knownTypeDeclarations = []\<rparr>,
        validFiles := [(''/src/b.ts'', False)],
        journal := [Checked ''/src/main.ts'', EdgeRecorded ''/src/main.ts'' ''/src/b.ts'',
                    Checked ''/src/b.ts'']\<rparr>)"
    by code_simp
  have j: "journal (session (asyncRun (diskWorld jsUnits) fifo
       (emitAsync (diskWorld jsUnits) ''/src/main.ts'' [] [] (loaded jsUnits)))) =
     [Checked ''/src/main.ts'', EdgeRecorded ''/src/main.ts'' ''/src/b.ts'', Checked ''/src/b.ts'']"
    by code_simp
  from compiled_module_opacity[of "diskWorld jsUnits" "''/src/main.ts''" "loaded jsUnits" "[]" "[]"] e j
  show ?thesis by blast
qed

subsection \<open>C10: \<^verbatim>\<open>getDependencies\<close> hands out a copy\<close>



end
